theory Spec2Isabelle
  imports Main
begin

section \<open>Data model of the ErrorWatch SDK\<close>

text \<open>
  The development follows the class \<open>ErrorWatch\<close> of the SDK source. Values of type
  \<open>any\<close> are values of \<open>jsval\<close>; an optional field is an \<open>option\<close>; a
  \<open>Record<string, any>\<close> is a map from strings. Arrays of breadcrumbs live in an explicit
  store, because the trail is mutated in place while captured events keep arrays of their own.
\<close>

type_synonym addr = nat

datatype jsval =
    Undefined
  | Null
  | Str string
  | Num int
  | Bool bool
  | Arr "jsval list"
  | Obj "(string \<times> jsval) list"
  | ArrayRef addr

datatype severity = error | warning | info

record ErrorData =
  message :: string
  stack :: "string option"
  url :: string
  line :: "int option"
  column :: "int option"
  userAgent :: string
  timestamp :: int
  severity :: severity
  metadata :: "(string \<rightharpoonup> jsval) option"
  screenRecording :: "string option"

record ErrorEvent = ErrorData +
  type :: "string option"

text \<open>The fields of \<open>Breadcrumb\<close> carry a prefix, since \<open>message\<close>, \<open>timestamp\<close> and
  \<open>type\<close> are fields of the event records already.\<close>

record Breadcrumb =
  crumb_type :: string
  crumb_message :: string
  crumb_data :: jsval
  crumb_timestamp :: int

text \<open>A frame emitted by the external recorder. The source reads only its \<open>timestamp\<close>;
  \<open>frame_content\<close> stands for the text of the frame in the serialised buffer, and
  \<open>frame_cyclic\<close> says that the frame holds a value \<open>JSON.stringify\<close> rejects (a cycle, a
  BigInt).\<close>

datatype rrweb_event = RREvent (frame_timestamp: int) (frame_content: string) (frame_cyclic: bool)

text \<open>A call of \<open>console.warn\<close> made by the SDK. Console arguments are represented by
  their string conversions throughout.\<close>

datatype console_call = Warn "string list"

datatype js_error = TypeError | SyntaxError | UserError string | HttpError int

definition BATCH_INTERVAL :: int where "BATCH_INTERVAL = 5000"
definition BATCH_SIZE :: nat where "BATCH_SIZE = 10"
definition BREADCRUMB_LIMIT :: nat where "BREADCRUMB_LIMIT = 30"

text \<open>The value held by \<open>localStorage\<close> under \<open>ERROR_QUEUE_KEY\<close>. The JSON text written by
  \<open>saveQueue\<close> is represented by the queue it encodes; \<open>Corrupt\<close> is a text that
  \<open>JSON.parse\<close> rejects.\<close>

datatype stored = Absent | Corrupt | Saved "ErrorData list"

record ErrorWatchConfig =
  enableScreenRecording :: bool
  maxRecordingDuration :: int
  captureConsole :: bool
  beforeSend :: "ErrorEvent \<Rightarrow> js_error + ErrorEvent option"
  redactSelectors :: "string list option"
  allowPII :: bool
  onErrorCaptured :: "(ErrorData \<Rightarrow> js_error option) option"

text \<open>
  The instance together with the parts of the host it touches: \<open>isBrowser\<close>, the storage
  item and whether \<open>setItem\<close> accepts a value (\<open>setItem_ok\<close>: quota, serialisation), the
  store of breadcrumb arrays (\<open>arrays\<close>, with \<open>next_array\<close> the next free address),
  the page address and user agent, the recorder's liveness
  (\<open>recorder_live\<close>: the emit callback is registered) and the \<open>maskTextClass\<close> it
  was started with, the window listeners and console
  wrappers the instance has installed, and \<open>requests\<close>, the batches handed to
  \<open>sendBatch\<close> so far, in call order.
\<close>

record ErrorWatch =
  config :: ErrorWatchConfig
  isRecording :: bool
  recordingEvents :: "rrweb_event list"
  stopRecording :: bool
  errorQueue :: "ErrorData list"
  isSendingQueue :: bool
  batch :: "ErrorData list"
  batchTimer :: "int option"
  breadcrumbs :: addr
  sessionId :: string
  userId :: "string option"
  sessionStartTime :: int
  isBrowser :: bool
  localStorage :: stored
  setItem_ok :: "ErrorData list \<Rightarrow> bool"
  arrays :: "addr \<Rightarrow> Breadcrumb list"
  next_array :: addr
  location_href :: string
  navigator_userAgent :: string
  recorder_live :: bool
  maskTextClass :: "string option"
  listeners :: "string list"
  console_error_patched :: bool
  console_warn_patched :: bool
  console_log_patched :: bool
  requests :: "ErrorData list list"

section \<open>Persistent delivery queue\<close>

definition loadQueue :: "bool \<Rightarrow> stored \<Rightarrow> ErrorData list" where
  "loadQueue browser st =
     (if \<not> browser then []
      else case st of Absent \<Rightarrow> [] | Corrupt \<Rightarrow> [] | Saved q \<Rightarrow> q)"

text \<open>\<open>saveQueue\<close> swallows every failure of \<open>setItem\<close>: the item then keeps its value.\<close>

definition saveQueue :: "ErrorData list \<Rightarrow> ErrorWatch \<Rightarrow> ErrorWatch" where
  "saveQueue queue s =
     (if \<not> isBrowser s then s
      else if setItem_ok s queue then s\<lparr>localStorage := Saved queue\<rparr>
      else s)"

definition queueError :: "ErrorData \<Rightarrow> ErrorWatch \<Rightarrow> ErrorWatch" where
  "queueError errorData s =
     (let s1 = s\<lparr>errorQueue := errorQueue s @ [errorData]\<rparr>
      in saveQueue (errorQueue s1) s1)"

text \<open>
  One answer of the transport to a \<open>sendBatch\<close> awaited by \<open>flushQueue\<close>: whether the
  promise resolved, and the events that \<open>queueError\<close> appended while the drain was
  suspended at the \<open>await\<close> (nothing else writes the queue: a second \<open>flushQueue\<close> returns
  at once on \<open>isSendingQueue\<close>).
\<close>

datatype reply = Reply (delivered: bool) (enqueued_meanwhile: "ErrorData list")

definition await_reply :: "reply \<Rightarrow> ErrorWatch \<Rightarrow> ErrorWatch" where
  "await_reply r s = foldl (\<lambda>s' e. queueError e s') s (enqueued_meanwhile r)"

text \<open>The \<open>while\<close> loop of \<open>flushQueue\<close>. It consumes one reply per iteration; \<open>None\<close>
  means that the loop is still waiting when the replies are used up.\<close>

fun drain :: "reply list \<Rightarrow> ErrorWatch \<Rightarrow> ErrorWatch option" where
  "drain [] s = (if errorQueue s = [] then Some s else None)"
| "drain (r # rs) s =
     (if errorQueue s = [] then Some s
      else
        let batch = take BATCH_SIZE (errorQueue s);
            s1 = s\<lparr>errorQueue := drop BATCH_SIZE (errorQueue s),
                    requests := requests s @ [batch]\<rparr>;
            s2 = await_reply r s1
        in if delivered r then drain rs (saveQueue (errorQueue s2) s2)
           else
             let s3 = s2\<lparr>errorQueue := batch @ errorQueue s2\<rparr>
             in Some (saveQueue (errorQueue s3) s3))"

definition flushQueue :: "reply list \<Rightarrow> ErrorWatch \<Rightarrow> ErrorWatch option" where
  "flushQueue rs s =
     (if isSendingQueue s then Some s
      else map_option (\<lambda>s'. s'\<lparr>isSendingQueue := False\<rparr>)
             (drain rs (s\<lparr>isSendingQueue := True\<rparr>)))"

section \<open>Batch accumulator\<close>

text \<open>
  \<open>flushBatch\<close> up to its \<open>await\<close>: the snapshot is handed to \<open>sendBatch\<close> (logged in
  \<open>requests\<close>). \<open>batchTimer\<close> holds the deadline of the pending timeout. The part after a
  rejected \<open>await\<close> is \<open>flushBatch_rejected\<close>; it runs later, on whatever the state is then.
\<close>

definition flushBatch :: "ErrorWatch \<Rightarrow> ErrorWatch" where
  "flushBatch s =
     (if length (batch s) = 0 then s
      else
        let batchToSend = batch s;
            s1 = s\<lparr>batch := []\<rparr>;
            s2 = (if batchTimer s1 \<noteq> None then s1\<lparr>batchTimer := None\<rparr> else s1)
        in s2\<lparr>requests := requests s2 @ [batchToSend]\<rparr>)"

definition error_text :: "js_error \<Rightarrow> string" where
  "error_text e =
     (case e of TypeError \<Rightarrow> ''TypeError'' | SyntaxError \<Rightarrow> ''SyntaxError''
      | UserError m \<Rightarrow> ''Error: '' @ m | HttpError n \<Rightarrow> ''Error: HTTP'')"


definition addToBatch :: "int \<Rightarrow> ErrorData \<Rightarrow> ErrorWatch \<Rightarrow> ErrorWatch" where
  "addToBatch now errorData s =
     (let s1 = s\<lparr>batch := batch s @ [errorData]\<rparr>
      in if length (batch s1) \<ge> BATCH_SIZE then flushBatch s1
         else if batchTimer s1 = None then s1\<lparr>batchTimer := Some (now + BATCH_INTERVAL)\<rparr>
         else s1)"

text \<open>What happens to the accumulator: an addition at some time, or the expiry of the pending
  timeout (a cleared timeout does not fire).\<close>

datatype acc_event = Add int ErrorData | Expire

fun acc_step :: "acc_event \<Rightarrow> ErrorWatch \<Rightarrow> ErrorWatch" where
  "acc_step (Add now e) s = addToBatch now e s"
| "acc_step Expire s = (if batchTimer s = None then s else flushBatch s)"

fun run_acc :: "acc_event list \<Rightarrow> ErrorWatch \<Rightarrow> ErrorWatch" where
  "run_acc [] s = s"
| "run_acc (ev # evs) s = run_acc evs (acc_step ev s)"

fun added :: "acc_event list \<Rightarrow> ErrorData list" where
  "added [] = []"
| "added (Add now e # evs) = e # added evs"
| "added (Expire # evs) = added evs"

section \<open>Breadcrumb trail\<close>

definition addBreadcrumb :: "Breadcrumb \<Rightarrow> ErrorWatch \<Rightarrow> ErrorWatch" where
  "addBreadcrumb breadcrumb s =
     (let a = breadcrumbs s;
          pushed = arrays s a @ [breadcrumb];
          trail = (if length pushed > BREADCRUMB_LIMIT then tl pushed else pushed)
      in s\<lparr>arrays := (arrays s)(a := trail)\<rparr>)"

text \<open>\<open>this.breadcrumbs.slice()\<close>: a new array with the elements of the trail.\<close>

definition slice_breadcrumbs :: "ErrorWatch \<Rightarrow> addr \<times> ErrorWatch" where
  "slice_breadcrumbs s =
     (next_array s,
      s\<lparr>arrays := (arrays s)(next_array s := arrays s (breadcrumbs s)),
        next_array := Suc (next_array s)\<rparr>)"

text \<open>The wrapper that \<open>setupBreadcrumbs\<close> installs over \<open>console.log\<close>.\<close>

definition console_log :: "int \<Rightarrow> string list \<Rightarrow> ErrorWatch \<Rightarrow> ErrorWatch" where
  "console_log now args s =
     (if console_log_patched s
      then addBreadcrumb \<lparr>crumb_type = ''console'', crumb_message = ''log'',
             crumb_data = Obj [(''args'', Arr (map Str args))], crumb_timestamp = now\<rparr> s
      else s)"

section \<open>Session recorder\<close>

text \<open>\<open>Array.prototype.join\<close> on strings.\<close>

fun join :: "string \<Rightarrow> string list \<Rightarrow> string" where
  "join sep [] = []"
| "join sep [x] = x"
| "join sep (x # y # ys) = x @ sep @ join sep (y # ys)"

text \<open>\<open>record\<close> is called with \<open>maskTextClass\<close> set to the joined selectors, or to
  \<open>undefined\<close> when there are none.\<close>

definition maskTextClass_option :: "ErrorWatchConfig \<Rightarrow> string option" where
  "maskTextClass_option cfg =
     (case redactSelectors cfg of
        None \<Rightarrow> None
      | Some selectors \<Rightarrow> if join '','' selectors = [] then None else Some (join '','' selectors))"

definition startScreenRecording :: "ErrorWatch \<Rightarrow> ErrorWatch" where
  "startScreenRecording s =
     (if \<not> isBrowser s \<or> isRecording s then s
      else s\<lparr>recordingEvents := [], isRecording := True, stopRecording := True,
              recorder_live := True, maskTextClass := maskTextClass_option (config s)\<rparr>)"

definition restartRecording :: "ErrorWatch \<Rightarrow> ErrorWatch" where
  "restartRecording s =
     startScreenRecording (if stopRecording s then s\<lparr>recorder_live := False\<rparr> else s)"

text \<open>The \<open>emit\<close> callback given to the recorder, and the recorder calling it: only a live
  recorder emits.\<close>

definition emit :: "int \<Rightarrow> rrweb_event \<Rightarrow> ErrorWatch \<Rightarrow> ErrorWatch" where
  "emit now event s =
     (let s1 = s\<lparr>recordingEvents := recordingEvents s @ [event]\<rparr>
      in case recordingEvents s1 of
           [] \<Rightarrow> s1
         | firstEvent # _ \<Rightarrow>
             if now - frame_timestamp firstEvent > maxRecordingDuration (config s1)
             then restartRecording s1 else s1)"

definition recorder_emits :: "int \<Rightarrow> rrweb_event \<Rightarrow> ErrorWatch \<Rightarrow> ErrorWatch" where
  "recorder_emits now event s = (if recorder_live s then emit now event s else s)"

fun record_frames :: "(int \<times> rrweb_event) list \<Rightarrow> ErrorWatch \<Rightarrow> ErrorWatch" where
  "record_frames [] s = s"
| "record_frames ((now, event) # fs) s = record_frames fs (recorder_emits now event s)"

section \<open>Capture pipeline\<close>

definition JSON_stringify :: "rrweb_event list \<Rightarrow> js_error + string" where
  "JSON_stringify evs =
     (if \<exists>f \<in> set evs. frame_cyclic f then Inl TypeError
      else Inr (''['' @ join '','' (map frame_content evs) @ '']''))"

text \<open>The \<open>catch\<close> block of \<open>handleError\<close>. Its \<open>console.warn\<close> is the last action of the
  handler and is returned to the caller; \<open>console_warn\<close> below is what the call does when
  the wrapper of \<open>setupConsoleCapture\<close> is installed.\<close>

definition handleError_catch ::
    "ErrorData \<Rightarrow> js_error \<Rightarrow> ErrorWatch \<Rightarrow> ErrorWatch \<times> console_call list" where
  "handleError_catch errorData err s =
     (queueError errorData s,
      [Warn [''ErrorWatch: Failed to queue error for batch'', error_text err]])"

text \<open>The metadata literal of \<open>handleError\<close>: the spread of the event's own metadata, then the
  four keys.\<close>

definition merge_metadata :: "addr \<Rightarrow> ErrorWatch \<Rightarrow> ErrorData \<Rightarrow> ErrorData" where
  "merge_metadata a s errorData =
     errorData\<lparr>metadata := Some
       ((case metadata errorData of None \<Rightarrow> Map.empty | Some m \<Rightarrow> m)
          (''breadcrumbs'' \<mapsto> ArrayRef a,
           ''sessionId'' \<mapsto> Str (sessionId s),
           ''userId'' \<mapsto> (case userId s of None \<Rightarrow> Undefined | Some u \<Rightarrow> Str u),
           ''sessionStart'' \<mapsto> Num (sessionStartTime s)))\<rparr>"

text \<open>
  \<open>handleError\<close> is an \<open>async\<close> function without an \<open>await\<close>: it runs to its end when
  called, and whatever is thrown in it settles the promise it returns, which no caller reads.
  \<open>beforeSend\<close> and the analytics hook are user code: they may throw. The result of
  \<open>beforeSend\<close> is bound to \<open>processedError\<close> and only tested; the steps after it work on
  \<open>errorData\<close>. The two assignments to \<open>errorData\<close> are \<open>attach_recording\<close> (with its
  \<open>console.log\<close>) and \<open>attach_metadata\<close>.
\<close>

definition attach_recording ::
    "int \<Rightarrow> ErrorData \<Rightarrow> ErrorWatch \<Rightarrow> js_error + ErrorData \<times> ErrorWatch" where
  "attach_recording now errorData s =
     (if enableScreenRecording (config s) \<and> length (recordingEvents s) > 0
      then (case JSON_stringify (recordingEvents s) of
              Inl err \<Rightarrow> Inl err
            | Inr text \<Rightarrow>
                Inr (errorData\<lparr>screenRecording := Some text\<rparr>,
                     console_log now [''[ErrorWatch] screenRecording:'', text] s))
      else Inr (errorData, s))"

definition attach_metadata :: "ErrorData \<Rightarrow> ErrorWatch \<Rightarrow> ErrorData \<times> ErrorWatch" where
  "attach_metadata errorData s =
     (let (a, s1) = slice_breadcrumbs s in (merge_metadata a s1 errorData, s1))"

definition handleError ::
    "int \<Rightarrow> ErrorData \<Rightarrow> ErrorWatch \<Rightarrow> ErrorWatch \<times> console_call list" where
  "handleError now errorData s =
     (case beforeSend (config s) (ErrorData.extend errorData \<lparr>type = Some ''error''\<rparr>) of
        Inl err \<Rightarrow> handleError_catch errorData err s
      | Inr None \<Rightarrow> (s, [])
      | Inr (Some processedError) \<Rightarrow>
          (case attach_recording now errorData s of
             Inl err \<Rightarrow> handleError_catch errorData err s
           | Inr (e1, s1) \<Rightarrow>
               let (e2, s2) = attach_metadata e1 s1
               in case onErrorCaptured (config s2) of
                    None \<Rightarrow> (addToBatch now e2 s2, [])
                  | Some hook \<Rightarrow>
                      (case hook e2 of
                         Some err \<Rightarrow> handleError_catch e2 err s2
                       | None \<Rightarrow> (addToBatch now e2 s2, []))))"

text \<open>The wrappers of \<open>setupConsoleCapture\<close> and the listeners of \<open>setupErrorHandlers\<close>.\<close>

definition console_error ::
    "int \<Rightarrow> string list \<Rightarrow> ErrorWatch \<Rightarrow> ErrorWatch \<times> console_call list" where
  "console_error now args s =
     (if console_error_patched s
      then handleError now
             \<lparr>message = join '' '' args, stack = None, url = location_href s, line = None,
              column = None, userAgent = navigator_userAgent s, timestamp = now,
              severity = error,
              metadata = Some [''type'' \<mapsto> Str ''console.error'', ''args'' \<mapsto> Arr (map Str args)],
              screenRecording = None\<rparr> s
      else (s, []))"

definition console_warn ::
    "int \<Rightarrow> string list \<Rightarrow> ErrorWatch \<Rightarrow> ErrorWatch \<times> console_call list" where
  "console_warn now args s =
     (if console_warn_patched s
      then handleError now
             \<lparr>message = join '' '' args, stack = None, url = location_href s, line = None,
              column = None, userAgent = navigator_userAgent s, timestamp = now,
              severity = warning,
              metadata = Some [''type'' \<mapsto> Str ''console.warn'', ''args'' \<mapsto> Arr (map Str args)],
              screenRecording = None\<rparr> s
      else (s, []))"

text \<open>A window \<open>error\<close> event: message, stack of \<open>event.error\<close>, filename, line, column.\<close>

record ErrorEventInit =
  ev_message :: string
  ev_stack :: "string option"
  ev_filename :: string
  ev_lineno :: int
  ev_colno :: int

definition error_event_data :: "int \<Rightarrow> ErrorEventInit \<Rightarrow> ErrorWatch \<Rightarrow> ErrorData" where
  "error_event_data now event s =
     \<lparr>message = ev_message event, stack = ev_stack event,
      url = (if ev_filename event \<noteq> [] then ev_filename event else location_href s),
      line = Some (ev_lineno event), column = Some (ev_colno event),
      userAgent = navigator_userAgent s, timestamp = now, severity = error,
      metadata = None, screenRecording = None\<rparr>"

definition window_error ::
    "int \<Rightarrow> ErrorEventInit \<Rightarrow> ErrorWatch \<Rightarrow> ErrorWatch \<times> console_call list" where
  "window_error now event s =
     (if ''error'' \<in> set (listeners s)
      then handleError now (error_event_data now event s) s
      else (s, []))"

definition window_unhandledrejection ::
    "int \<Rightarrow> string \<Rightarrow> string option \<Rightarrow> ErrorWatch \<Rightarrow> ErrorWatch \<times> console_call list" where
  "window_unhandledrejection now reason reason_stack s =
     (if ''unhandledrejection'' \<in> set (listeners s)
      then handleError now
             \<lparr>message = ''Unhandled Promise Rejection: '' @ reason, stack = reason_stack,
              url = location_href s, line = None, column = None,
              userAgent = navigator_userAgent s, timestamp = now, severity = error,
              metadata = Some [''type'' \<mapsto> Str ''unhandledrejection'', ''reason'' \<mapsto> Str reason],
              screenRecording = None\<rparr> s
      else (s, []))"

section \<open>Public methods\<close>


definition captureMessage ::
    "int \<Rightarrow> string \<Rightarrow> severity \<Rightarrow> (string \<rightharpoonup> jsval) option \<Rightarrow> ErrorWatch
      \<Rightarrow> ErrorWatch \<times> console_call list" where
  "captureMessage now msg sev meta s =
     handleError now
       \<lparr>message = msg, stack = None,
        url = (if isBrowser s then location_href s else ''nodejs''),
        line = None, column = None,
        userAgent = (if isBrowser s then navigator_userAgent s else ''nodejs''),
        timestamp = now, severity = sev,
        metadata = Some ((case meta of None \<Rightarrow> Map.empty | Some m \<Rightarrow> m)(''type'' \<mapsto> Str ''message'')),
        screenRecording = None\<rparr> s"

definition captureEvent ::
    "int \<Rightarrow> string \<Rightarrow> (string \<rightharpoonup> jsval) option \<Rightarrow> ErrorWatch
      \<Rightarrow> ErrorWatch \<times> console_call list" where
  "captureEvent now eventName data s =
     handleError now
       \<lparr>message = ''Event: '' @ eventName, stack = None,
        url = (if isBrowser s then location_href s else ''nodejs''),
        line = None, column = None,
        userAgent = (if isBrowser s then navigator_userAgent s else ''nodejs''),
        timestamp = now, severity = info,
        metadata = Some ((case data of None \<Rightarrow> Map.empty | Some m \<Rightarrow> m)
                           (''type'' \<mapsto> Str ''event'', ''eventName'' \<mapsto> Str eventName)),
        screenRecording = None\<rparr> s"

text \<open>\<open>setUser\<close> and \<open>setContext\<close> wrap the current \<open>beforeSend\<close>. A user is the object
  \<open>{id, email?, name?}\<close>.\<close>

definition with_metadata :: "string \<Rightarrow> jsval \<Rightarrow> ErrorEvent \<Rightarrow> ErrorEvent" where
  "with_metadata key v processed =
     processed\<lparr>metadata :=
       Some ((case metadata processed of None \<Rightarrow> Map.empty | Some m \<Rightarrow> m)(key \<mapsto> v))\<rparr>"

definition wrap_beforeSend ::
    "string \<Rightarrow> jsval \<Rightarrow> (ErrorEvent \<Rightarrow> js_error + ErrorEvent option)
      \<Rightarrow> ErrorEvent \<Rightarrow> js_error + ErrorEvent option" where
  "wrap_beforeSend key v originalBeforeSend ev =
     (case originalBeforeSend ev of
        Inl err \<Rightarrow> Inl err
      | Inr None \<Rightarrow> Inr None
      | Inr (Some processed) \<Rightarrow> Inr (Some (with_metadata key v processed)))"

definition user_object :: "string \<Rightarrow> string option \<Rightarrow> string option \<Rightarrow> jsval" where
  "user_object uid email name =
     Obj ([(''id'', Str uid)]
          @ (case email of None \<Rightarrow> [] | Some e \<Rightarrow> [(''email'', Str e)])
          @ (case name of None \<Rightarrow> [] | Some n \<Rightarrow> [(''name'', Str n)]))"

definition setUser :: "string \<Rightarrow> string option \<Rightarrow> string option \<Rightarrow> ErrorWatch \<Rightarrow> ErrorWatch" where
  "setUser uid email name s =
     s\<lparr>userId := Some uid,
       config := (config s)\<lparr>beforeSend :=
         wrap_beforeSend ''user'' (user_object uid email name) (beforeSend (config s))\<rparr>\<rparr>"

definition setContext :: "string \<Rightarrow> jsval \<Rightarrow> ErrorWatch \<Rightarrow> ErrorWatch" where
  "setContext key v s =
     s\<lparr>config := (config s)\<lparr>beforeSend := wrap_beforeSend key v (beforeSend (config s))\<rparr>\<rparr>"

definition destroy :: "ErrorWatch \<Rightarrow> ErrorWatch" where
  "destroy s =
     (let s1 = (if stopRecording s then s\<lparr>recorder_live := False\<rparr> else s);
          s2 = s1\<lparr>isRecording := False, recordingEvents := []\<rparr>;
          s3 = (if batchTimer s2 \<noteq> None then s2\<lparr>batchTimer := None\<rparr> else s2)
      in flushBatch s3)"

section \<open>Redaction\<close>















section \<open>Transport payload\<close>

text \<open>The fields of a batch item that \<open>sendBatch\<close> computes from the event (the request
  also carries constants of the configuration, the breadcrumbs as JSON and the time as ISO
  text). \<open>or_else\<close> is \<open>||\<close> and \<open>get_prop\<close> is \<open>?.\<close> on a property.\<close>

definition truthy :: "jsval \<Rightarrow> bool" where
  "truthy v =
     (case v of Undefined \<Rightarrow> False | Null \<Rightarrow> False | Str x \<Rightarrow> x \<noteq> [] | Num n \<Rightarrow> n \<noteq> 0
      | Bool b \<Rightarrow> b | _ \<Rightarrow> True)"

definition or_else :: "jsval \<Rightarrow> jsval \<Rightarrow> jsval" where
  "or_else v d = (if truthy v then v else d)"

definition get_prop :: "jsval \<Rightarrow> string \<Rightarrow> jsval" where
  "get_prop v k =
     (case v of Obj kvs \<Rightarrow> (case map_of kvs k of Some x \<Rightarrow> x | None \<Rightarrow> Undefined)
      | _ \<Rightarrow> Undefined)"

definition metadata_field :: "'a ErrorData_scheme \<Rightarrow> string \<Rightarrow> jsval" where
  "metadata_field e k =
     (case metadata e of None \<Rightarrow> Undefined
      | Some m \<Rightarrow> (case m k of None \<Rightarrow> Undefined | Some v \<Rightarrow> v))"

record batch_item =
  item_message :: string
  level :: severity
  exception_type :: jsval
  stacktrace :: string
  user_id :: jsval

definition sendBatch_item :: "ErrorData \<Rightarrow> batch_item" where
  "sendBatch_item e =
     \<lparr>item_message = message e,
      level = severity e,
      exception_type = or_else (metadata_field e ''type'') (Str ''error''),
      stacktrace = (case stack e of None \<Rightarrow> [] | Some st \<Rightarrow> st),
      user_id = or_else (get_prop (metadata_field e ''user'') ''id'') (Str [])\<rparr>"

definition sendBatch_body :: "ErrorData list \<Rightarrow> batch_item list" where
  "sendBatch_body errors = map sendBatch_item errors"

section \<open>Construction\<close>

text \<open>The defaults of the constructor, and the instance as \<open>init\<close> leaves it at its call of
  \<open>flushQueue\<close>. The session hooks are not part of the model.\<close>

definition default_config :: ErrorWatchConfig where
  "default_config =
     \<lparr>enableScreenRecording = True, maxRecordingDuration = 30000, captureConsole = True,
      beforeSend = (\<lambda>ev. Inr (Some ev)), redactSelectors = Some [], allowPII = False,
      onErrorCaptured = None\<rparr>"

definition setupErrorHandlers :: "ErrorWatch \<Rightarrow> ErrorWatch" where
  "setupErrorHandlers s =
     (if \<not> isBrowser s then s
      else s\<lparr>listeners := listeners s @ [''error'', ''unhandledrejection'']\<rparr>)"

definition setupConsoleCapture :: "ErrorWatch \<Rightarrow> ErrorWatch" where
  "setupConsoleCapture s =
     (if \<not> isBrowser s then s
      else s\<lparr>console_error_patched := True, console_warn_patched := True\<rparr>)"

definition setupBreadcrumbs :: "ErrorWatch \<Rightarrow> ErrorWatch" where
  "setupBreadcrumbs s =
     (if \<not> isBrowser s then s
      else s\<lparr>listeners := listeners s @ [''popstate'', ''hashchange'', ''click''],
              console_log_patched := True\<rparr>)"

definition init :: "ErrorWatch \<Rightarrow> ErrorWatch" where
  "init s =
     (let s1 = setupErrorHandlers s;
          s2 = (if enableScreenRecording (config s1) \<and> isBrowser s1
                then startScreenRecording s1 else s1);
          s3 = (if captureConsole (config s2) then setupConsoleCapture s2 else s2)
      in setupBreadcrumbs s3)"

definition new_ErrorWatch ::
    "ErrorWatchConfig \<Rightarrow> bool \<Rightarrow> stored \<Rightarrow> (ErrorData list \<Rightarrow> bool) \<Rightarrow> string \<Rightarrow> string
      \<Rightarrow> string \<Rightarrow> int \<Rightarrow> ErrorWatch" where
  "new_ErrorWatch cfg browser item ok href agent sid now =
     init
       \<lparr>config = cfg, isRecording = False, recordingEvents = [], stopRecording = False,
        errorQueue = loadQueue browser item, isSendingQueue = False, batch = [],
        batchTimer = None, breadcrumbs = 0, sessionId = sid, userId = None,
        sessionStartTime = now, isBrowser = browser, localStorage = item, setItem_ok = ok,
        arrays = (\<lambda>a. []), next_array = 1, location_href = href,
        navigator_userAgent = agent, recorder_live = False, maskTextClass = None,
        listeners = (if browser then [''online'', ''beforeunload''] else []),
        console_error_patched = False, console_warn_patched = False,
        console_log_patched = False, requests = []\<rparr>"

text \<open>Values for the examples: a page in a browser with an empty store, and three events.\<close>

definition page :: ErrorWatch where
  "page = new_ErrorWatch default_config True Absent (\<lambda>q. True)
            ''https://shop.example/cart'' ''Mozilla/5.0'' ''s1'' 1000"

definition ev :: "string \<Rightarrow> ErrorData" where
  "ev m = \<lparr>message = m, stack = None, url = ''https://shop.example/cart'', line = None,
           column = None, userAgent = ''Mozilla/5.0'', timestamp = 1000, severity = error,
           metadata = None, screenRecording = None\<rparr>"


definition with_context :: ErrorWatch where
  "with_context =
     setUser ''12345'' (Some ''user@example.com'') (Some ''John Doe'')
       (setContext ''version'' (Str ''1.2.3'') page)"

definition hello :: ErrorData where
  "hello = \<lparr>message = ''hello'', stack = None, url = ''https://shop.example/cart'',
      line = None, column = None, userAgent = ''Mozilla/5.0'', timestamp = 2000, severity = info,
      metadata = Some [''type'' \<mapsto> Str ''message''], screenRecording = None\<rparr>"

definition hello_transformed :: ErrorEvent where
  "hello_transformed =
     with_metadata ''user'' (user_object ''12345'' (Some ''user@example.com'') (Some ''John Doe''))
       (with_metadata ''version'' (Str ''1.2.3'')
          (ErrorData.extend hello \<lparr>type = Some ''error''\<rparr>))"


definition crumb :: "nat \<Rightarrow> Breadcrumb" where
  "crumb n = \<lparr>crumb_type = ''ui'', crumb_message = ''click'', crumb_data = Undefined,
              crumb_timestamp = int n\<rparr>"

definition frame :: "int \<Rightarrow> rrweb_event" where
  "frame t = RREvent t ''{}'' False"

section \<open>Properties of the delivery queue\<close>

lemma saveQueue_fields [simp]:
  "errorQueue (saveQueue q s) = errorQueue s"
  "requests (saveQueue q s) = requests s"
  "isSendingQueue (saveQueue q s) = isSendingQueue s"
  "isBrowser (saveQueue q s) = isBrowser s"
  "setItem_ok (saveQueue q s) = setItem_ok s"
  "batch (saveQueue q s) = batch s"
  "batchTimer (saveQueue q s) = batchTimer s"
  by (simp_all add: saveQueue_def)

lemma saveQueue_stored:
  "isBrowser s \<Longrightarrow> setItem_ok s q \<Longrightarrow> localStorage (saveQueue q s) = Saved q"
  by (simp add: saveQueue_def)

lemma queueError_fields [simp]:
  "errorQueue (queueError e s) = errorQueue s @ [e]"
  "requests (queueError e s) = requests s"
  "isSendingQueue (queueError e s) = isSendingQueue s"
  "isBrowser (queueError e s) = isBrowser s"
  "setItem_ok (queueError e s) = setItem_ok s"
  "batch (queueError e s) = batch s"
  "batchTimer (queueError e s) = batchTimer s"
  by (simp_all add: queueError_def Let_def)

lemma foldl_queueError_fields [simp]:
  "errorQueue (foldl (\<lambda>s' e. queueError e s') s es) = errorQueue s @ es"
  "requests (foldl (\<lambda>s' e. queueError e s') s es) = requests s"
  "isSendingQueue (foldl (\<lambda>s' e. queueError e s') s es) = isSendingQueue s"
  "isBrowser (foldl (\<lambda>s' e. queueError e s') s es) = isBrowser s"
  "setItem_ok (foldl (\<lambda>s' e. queueError e s') s es) = setItem_ok s"
  "batch (foldl (\<lambda>s' e. queueError e s') s es) = batch s"
  "batchTimer (foldl (\<lambda>s' e. queueError e s') s es) = batchTimer s"
  by (induction es arbitrary: s) simp_all

lemma await_reply_fields [simp]:
  "errorQueue (await_reply r s) = errorQueue s @ enqueued_meanwhile r"
  "requests (await_reply r s) = requests s"
  "isSendingQueue (await_reply r s) = isSendingQueue s"
  "isBrowser (await_reply r s) = isBrowser s"
  "setItem_ok (await_reply r s) = setItem_ok s"
  by (simp_all add: await_reply_def)


lemma drain_conserves:
  "drain rs s = Some s' \<Longrightarrow>
     \<exists>new. requests s' = requests s @ new \<and> length new \<le> length rs
       \<and> (\<forall>b \<in> set new. b \<noteq> [] \<and> length b \<le> 10)
       \<and> concat (map snd (filter (\<lambda>p. delivered (fst p)) (zip rs new))) @ errorQueue s'
           = errorQueue s @ concat (map enqueued_meanwhile (take (length new) rs))
       \<and> (\<forall>i < length new. \<not> delivered (rs ! i) \<longrightarrow> Suc i = length new)
       \<and> (new \<noteq> [] \<and> delivered (rs ! (length new - 1)) \<longrightarrow> errorQueue s' = [])
       \<and> (new \<noteq> [] \<and> isBrowser s \<and> setItem_ok s (errorQueue s')
             \<longrightarrow> localStorage s' = Saved (errorQueue s'))
       \<and> (new = [] \<longrightarrow> s' = s \<and> errorQueue s' = [])
       \<and> isBrowser s' = isBrowser s \<and> setItem_ok s' = setItem_ok s \<and> isSendingQueue s' = isSendingQueue s"
proof (induction rs arbitrary: s)
  case Nil
  then show ?case by (auto split: if_splits)
next
  case (Cons r rs)
  show ?case
  proof (cases "errorQueue s = []")
    case True
    with Cons.prems show ?thesis by auto
  next
    case nonempty: False
    define b where "b = take 10 (errorQueue s)"
    define s2 where "s2 = await_reply r (s\<lparr>errorQueue := drop 10 (errorQueue s), requests := requests s @ [b]\<rparr>)"
    have b: "b \<noteq> []" "length b \<le> 10" using nonempty by (auto simp: b_def)
    show ?thesis
    proof (cases "delivered r")
      case False
      with Cons.prems nonempty have s': "s' = saveQueue (b @ errorQueue s2) (s2\<lparr>errorQueue := b @ errorQueue s2\<rparr>)"
        by (simp add: Let_def BATCH_SIZE_def b_def s2_def)
      show ?thesis
        apply (rule exI [of _ "[b]"])
        using False b by (auto simp: s' s2_def b_def saveQueue_stored)
    next
      case True
      with Cons.prems nonempty have d: "drain rs (saveQueue (errorQueue s2) s2) = Some s'"
        by (simp add: Let_def BATCH_SIZE_def b_def s2_def)
      from Cons.IH [OF d] obtain new where new:
        "requests s' = requests (saveQueue (errorQueue s2) s2) @ new" "length new \<le> length rs"
        "\<forall>b \<in> set new. b \<noteq> [] \<and> length b \<le> 10"
        "concat (map snd (filter (\<lambda>p. delivered (fst p)) (zip rs new))) @ errorQueue s'
           = errorQueue (saveQueue (errorQueue s2) s2) @ concat (map enqueued_meanwhile (take (length new) rs))"
        "\<forall>i < length new. \<not> delivered (rs ! i) \<longrightarrow> Suc i = length new"
        "new \<noteq> [] \<and> delivered (rs ! (length new - 1)) \<longrightarrow> errorQueue s' = []"
        "new \<noteq> [] \<and> isBrowser (saveQueue (errorQueue s2) s2) \<and> setItem_ok (saveQueue (errorQueue s2) s2) (errorQueue s')
             \<longrightarrow> localStorage s' = Saved (errorQueue s')"
        "new = [] \<longrightarrow> s' = saveQueue (errorQueue s2) s2 \<and> errorQueue s' = []"
        "isBrowser s' = isBrowser (saveQueue (errorQueue s2) s2)" "setItem_ok s' = setItem_ok (saveQueue (errorQueue s2) s2)"
        "isSendingQueue s' = isSendingQueue (saveQueue (errorQueue s2) s2)"
        by blast
      have empty_case: "new = [] \<Longrightarrow> errorQueue s' = []"
        using new(8) by blast
      show ?thesis
      proof (rule exI [of _ "b # new"], intro conjI)
        show "requests s' = requests s @ b # new" using new(1) by (simp add: s2_def)
        show "length (b # new) \<le> length (r # rs)" using new(2) by simp
        show "\<forall>b\<in>set (b # new). b \<noteq> [] \<and> length b \<le> 10" using new(3) b by simp
        show "concat (map snd (filter (\<lambda>p. delivered (fst p)) (zip (r # rs) (b # new)))) @ errorQueue s'
           = errorQueue s @ concat (map enqueued_meanwhile (take (length (b # new)) (r # rs)))"
          using new(4) True by (simp add: s2_def b_def)
        show "\<forall>i<length (b # new). \<not> delivered ((r # rs) ! i) \<longrightarrow> Suc i = length (b # new)"
          using new(5) True by (auto simp: nth_Cons split: nat.splits)
        show "b # new \<noteq> [] \<and> delivered ((r # rs) ! (length (b # new) - 1)) \<longrightarrow> errorQueue s' = []"
          using new(6) empty_case by (cases new) auto
        show "b # new \<noteq> [] \<and> isBrowser s \<and> setItem_ok s (errorQueue s') \<longrightarrow> localStorage s' = Saved (errorQueue s')"
        proof (cases "new = []")
          case True
          then show ?thesis using new(8) by (auto simp: s2_def saveQueue_stored)
        next
          case False
          then show ?thesis using new(7) by (simp add: s2_def)
        qed
        show "b # new = [] \<longrightarrow> s' = s \<and> errorQueue s' = []" by simp
        show "isBrowser s' = isBrowser s" using new(9) by (simp add: s2_def)
        show "setItem_ok s' = setItem_ok s" using new(10) by (simp add: s2_def)
        show "isSendingQueue s' = isSendingQueue s" using new(11) by (simp add: s2_def)
      qed
    qed
  qed
qed

lemma drain_stops_at_failure:
  "\<exists>r \<in> set rs. \<not> delivered r \<Longrightarrow> \<exists>s'. drain rs s = Some s'"
proof (induction rs arbitrary: s)
  case Nil
  then show ?case by simp
next
  case (Cons r rs)
  show ?case
  proof (cases "delivered r")
    case True
    with Cons.prems have "\<exists>r \<in> set rs. \<not> delivered r" by auto
    from Cons.IH [OF this] show ?thesis using True by (simp add: Let_def)
  next
    case False
    then show ?thesis by (simp add: Let_def)
  qed
qed

text \<open>
  Claim C1. A drain is started on an idle instance. If the queue is not empty and the first
  delivery fails, the drain returns with the queue equal to its prior contents followed by
  the events enqueued during the attempt, after one request holding the first ten events at
  most, and with that queue persisted. A drain in which some delivery fails returns. Whenever
  a drain returns: every request holds between one and ten events; the delivered requests
  followed by the remaining queue are the prior queue followed by the events enqueued
  meanwhile, in order; only the last attempt can have failed; if the last attempt succeeded
  the queue is empty; and the remaining queue is persisted after any attempt.
\<close>

theorem flushQueue_restores_failed_batch:
  assumes idle: "\<not> isSendingQueue s"
  shows "(errorQueue s \<noteq> [] \<and> \<not> delivered r \<longrightarrow>
            (\<exists>s'. flushQueue (r # rs) s = Some s'
               \<and> errorQueue s' = errorQueue s @ enqueued_meanwhile r
               \<and> requests s' = requests s @ [take 10 (errorQueue s)]
               \<and> \<not> isSendingQueue s'
               \<and> (isBrowser s \<and> setItem_ok s (errorQueue s')
                    \<longrightarrow> localStorage s' = Saved (errorQueue s'))))
       \<and> ((\<exists>r \<in> set rs. \<not> delivered r) \<longrightarrow> flushQueue rs s \<noteq> None)
       \<and> (\<forall>s'. flushQueue rs s = Some s' \<longrightarrow>
            (\<exists>new. requests s' = requests s @ new \<and> length new \<le> length rs
               \<and> (\<forall>b \<in> set new. b \<noteq> [] \<and> length b \<le> 10)
               \<and> concat (map snd (filter (\<lambda>p. delivered (fst p)) (zip rs new))) @ errorQueue s'
                   = errorQueue s @ concat (map enqueued_meanwhile (take (length new) rs))
               \<and> (\<forall>i < length new. \<not> delivered (rs ! i) \<longrightarrow> Suc i = length new)
               \<and> (new \<noteq> [] \<and> delivered (rs ! (length new - 1)) \<longrightarrow> errorQueue s' = [])
               \<and> (new \<noteq> [] \<and> isBrowser s \<and> setItem_ok s (errorQueue s')
                     \<longrightarrow> localStorage s' = Saved (errorQueue s'))
               \<and> \<not> isSendingQueue s'))"
proof (intro conjI)
  show "errorQueue s \<noteq> [] \<and> \<not> delivered r \<longrightarrow>
            (\<exists>s'. flushQueue (r # rs) s = Some s'
               \<and> errorQueue s' = errorQueue s @ enqueued_meanwhile r
               \<and> requests s' = requests s @ [take 10 (errorQueue s)]
               \<and> \<not> isSendingQueue s'
               \<and> (isBrowser s \<and> setItem_ok s (errorQueue s')
                    \<longrightarrow> localStorage s' = Saved (errorQueue s')))"
    using idle by (auto simp: flushQueue_def Let_def BATCH_SIZE_def saveQueue_stored)
  show "(\<exists>r \<in> set rs. \<not> delivered r) \<longrightarrow> flushQueue rs s \<noteq> None"
    using idle drain_stops_at_failure [of rs "s\<lparr>isSendingQueue := True\<rparr>"]
    by (auto simp: flushQueue_def)
  show "\<forall>s'. flushQueue rs s = Some s' \<longrightarrow>
            (\<exists>new. requests s' = requests s @ new \<and> length new \<le> length rs
               \<and> (\<forall>b \<in> set new. b \<noteq> [] \<and> length b \<le> 10)
               \<and> concat (map snd (filter (\<lambda>p. delivered (fst p)) (zip rs new))) @ errorQueue s'
                   = errorQueue s @ concat (map enqueued_meanwhile (take (length new) rs))
               \<and> (\<forall>i < length new. \<not> delivered (rs ! i) \<longrightarrow> Suc i = length new)
               \<and> (new \<noteq> [] \<and> delivered (rs ! (length new - 1)) \<longrightarrow> errorQueue s' = [])
               \<and> (new \<noteq> [] \<and> isBrowser s \<and> setItem_ok s (errorQueue s')
                     \<longrightarrow> localStorage s' = Saved (errorQueue s'))
               \<and> \<not> isSendingQueue s')"
  proof (intro allI impI)
    fix s' assume "flushQueue rs s = Some s'"
    with idle obtain s1 where d: "drain rs (s\<lparr>isSendingQueue := True\<rparr>) = Some s1"
      and s': "s' = s1\<lparr>isSendingQueue := False\<rparr>"
      by (auto simp: flushQueue_def)
    from drain_conserves [OF d] obtain new where
      "requests s1 = requests (s\<lparr>isSendingQueue := True\<rparr>) @ new \<and> length new \<le> length rs
       \<and> (\<forall>b \<in> set new. b \<noteq> [] \<and> length b \<le> 10)
       \<and> concat (map snd (filter (\<lambda>p. delivered (fst p)) (zip rs new))) @ errorQueue s1
           = errorQueue (s\<lparr>isSendingQueue := True\<rparr>) @ concat (map enqueued_meanwhile (take (length new) rs))
       \<and> (\<forall>i < length new. \<not> delivered (rs ! i) \<longrightarrow> Suc i = length new)
       \<and> (new \<noteq> [] \<and> delivered (rs ! (length new - 1)) \<longrightarrow> errorQueue s1 = [])
       \<and> (new \<noteq> [] \<and> isBrowser (s\<lparr>isSendingQueue := True\<rparr>) \<and> setItem_ok (s\<lparr>isSendingQueue := True\<rparr>) (errorQueue s1)
             \<longrightarrow> localStorage s1 = Saved (errorQueue s1))"
      by blast
    then show "\<exists>new. requests s' = requests s @ new \<and> length new \<le> length rs
               \<and> (\<forall>b \<in> set new. b \<noteq> [] \<and> length b \<le> 10)
               \<and> concat (map snd (filter (\<lambda>p. delivered (fst p)) (zip rs new))) @ errorQueue s'
                   = errorQueue s @ concat (map enqueued_meanwhile (take (length new) rs))
               \<and> (\<forall>i < length new. \<not> delivered (rs ! i) \<longrightarrow> Suc i = length new)
               \<and> (new \<noteq> [] \<and> delivered (rs ! (length new - 1)) \<longrightarrow> errorQueue s' = [])
               \<and> (new \<noteq> [] \<and> isBrowser s \<and> setItem_ok s (errorQueue s')
                     \<longrightarrow> localStorage s' = Saved (errorQueue s'))
               \<and> \<not> isSendingQueue s'"
      by (intro exI [of _ new]) (simp add: s')
  qed
qed

lemmas page_defs = page_def new_ErrorWatch_def init_def setupErrorHandlers_def
  setupConsoleCapture_def setupBreadcrumbs_def startScreenRecording_def default_config_def
  loadQueue_def Let_def

lemma page_fields:
  "isSendingQueue page = False" "errorQueue page = []" "requests page = []"
  "isBrowser page = True" "setItem_ok page = (\<lambda>q. True)" "batch page = []" "batchTimer page = None"
  "breadcrumbs page = 0" "next_array page = 1" "arrays page = (\<lambda>a. [])"
  "config page = default_config" "recordingEvents page = []" "isRecording page = True"
  "recorder_live page = True" "stopRecording page = True"
  "listeners page = [''online'', ''beforeunload'', ''error'', ''unhandledrejection'',
     ''popstate'', ''hashchange'', ''click'']"
  "console_error_patched page = True" "console_warn_patched page = True"
  "console_log_patched page = True" "sessionId page = ''s1''" "userId page = None"
  "sessionStartTime page = 1000" "localStorage page = Absent"
  "location_href page = ''https://shop.example/cart''" "navigator_userAgent page = ''Mozilla/5.0''"
  by (simp_all add: page_defs)

text \<open>The example of the specification: four queued events, the first delivery fails.\<close>

theorem flushQueue_restores_failed_batch_witness:
  "\<not> isSendingQueue (page\<lparr>errorQueue := [ev ''a'', ev ''b'', ev ''c'', ev ''d'']\<rparr>)
   \<and> errorQueue (page\<lparr>errorQueue := [ev ''a'', ev ''b'', ev ''c'', ev ''d'']\<rparr>) \<noteq> []
   \<and> \<not> delivered (Reply False [])
   \<and> (\<exists>s'. flushQueue [Reply False []] (page\<lparr>errorQueue := [ev ''a'', ev ''b'', ev ''c'', ev ''d'']\<rparr>) = Some s'
         \<and> errorQueue s' = [ev ''a'', ev ''b'', ev ''c'', ev ''d'']
         \<and> requests s' = [[ev ''a'', ev ''b'', ev ''c'', ev ''d'']]
         \<and> localStorage s' = Saved [ev ''a'', ev ''b'', ev ''c'', ev ''d''])"
proof -
  let ?s = "page\<lparr>errorQueue := [ev ''a'', ev ''b'', ev ''c'', ev ''d'']\<rparr>"
  have idle: "\<not> isSendingQueue ?s" by (simp add: page_fields)
  have pending: "errorQueue ?s \<noteq> [] \<and> \<not> delivered (Reply False [])" by simp
  from flushQueue_restores_failed_batch [OF idle, of "Reply False []" "[]"] pending
  obtain s' where "flushQueue [Reply False []] ?s = Some s'"
    "errorQueue s' = errorQueue ?s @ enqueued_meanwhile (Reply False [])"
    "requests s' = requests ?s @ [take 10 (errorQueue ?s)]"
    "isBrowser ?s \<and> setItem_ok ?s (errorQueue s') \<longrightarrow> localStorage s' = Saved (errorQueue s')"
    by blast
  then have "flushQueue [Reply False []] ?s = Some s'
         \<and> errorQueue s' = [ev ''a'', ev ''b'', ev ''c'', ev ''d'']
         \<and> requests s' = [[ev ''a'', ev ''b'', ev ''c'', ev ''d'']]
         \<and> localStorage s' = Saved [ev ''a'', ev ''b'', ev ''c'', ev ''d'']"
    by (simp add: page_fields)
  with idle pending show ?thesis by blast
qed




lemma flushBatch_fields [simp]:
  "errorQueue (flushBatch s) = errorQueue s"
  "isSendingQueue (flushBatch s) = isSendingQueue s"
  "isBrowser (flushBatch s) = isBrowser s"
  "setItem_ok (flushBatch s) = setItem_ok s"
  "localStorage (flushBatch s) = localStorage s"
  by (simp_all add: flushBatch_def Let_def)


section \<open>Properties of the batch accumulator\<close>

lemma acc_step_effect:
  assumes "length (batch s) < 10" and "(batch s = []) = (batchTimer s = None)"
  shows "\<exists>fl. requests (acc_step a s) = requests s @ fl
           \<and> concat fl @ batch (acc_step a s) = batch s @ added [a]
           \<and> (\<forall>b \<in> set fl. b \<noteq> [] \<and> length b \<le> 10)
           \<and> length (batch (acc_step a s)) < 10
           \<and> ((batch (acc_step a s) = []) = (batchTimer (acc_step a s) = None))"
proof (cases a)
  case (Add now e)
  show ?thesis
  proof (cases "length (batch s) = 9")
    case True
    then have "acc_step a s = (s\<lparr>batch := [], batchTimer := None, requests := requests s @ [batch s @ [e]]\<rparr>)"
      using assms Add by (auto simp: addToBatch_def flushBatch_def Let_def BATCH_SIZE_def)
    then show ?thesis using True Add by (intro exI [of _ "[batch s @ [e]]"]) simp
  next
    case False
    then have "acc_step a s = (s\<lparr>batch := batch s @ [e],
        batchTimer := (if batch s = [] then Some (now + 5000) else batchTimer s)\<rparr>)"
      using assms Add by (auto simp: addToBatch_def flushBatch_def Let_def BATCH_SIZE_def BATCH_INTERVAL_def)
    then show ?thesis using False Add assms by (intro exI [of _ "[]"]) auto
  qed
next
  case Expire
  show ?thesis
  proof (cases "batch s = []")
    case True
    then show ?thesis using Expire assms by (intro exI [of _ "[]"]) simp
  next
    case False
    then have "acc_step a s = (s\<lparr>batch := [], batchTimer := None, requests := requests s @ [batch s]\<rparr>)"
      using assms Expire by (auto simp: flushBatch_def Let_def)
    then show ?thesis using False Expire assms by (intro exI [of _ "[batch s]"]) simp
  qed
qed

lemma added_append: "added (xs @ ys) = added xs @ added ys"
  by (induction xs rule: added.induct) simp_all

lemma run_acc_effect:
  assumes "length (batch s0) < 10" and "(batch s0 = []) = (batchTimer s0 = None)"
  shows "\<exists>flushed. requests (run_acc evs s0) = requests s0 @ flushed
           \<and> concat flushed @ batch (run_acc evs s0) = batch s0 @ added evs
           \<and> (\<forall>b \<in> set flushed. b \<noteq> [] \<and> length b \<le> 10)
           \<and> length (batch (run_acc evs s0)) < 10
           \<and> ((batch (run_acc evs s0) = []) = (batchTimer (run_acc evs s0) = None))"
  using assms
proof (induction evs arbitrary: s0)
  case Nil
  then show ?case by (intro exI [of _ "[]"]) simp
next
  case (Cons a evs)
  from acc_step_effect [OF Cons.prems, of a] obtain fl where flc:
    "requests (acc_step a s0) = requests s0 @ fl
     \<and> concat fl @ batch (acc_step a s0) = batch s0 @ added [a]
     \<and> (\<forall>b \<in> set fl. b \<noteq> [] \<and> length b \<le> 10)
     \<and> length (batch (acc_step a s0)) < 10
     \<and> ((batch (acc_step a s0) = []) = (batchTimer (acc_step a s0) = None))" ..
  note fl = flc [THEN conjunct1] flc [THEN conjunct2, THEN conjunct1]
    flc [THEN conjunct2, THEN conjunct2, THEN conjunct1]
    flc [THEN conjunct2, THEN conjunct2, THEN conjunct2, THEN conjunct1]
    flc [THEN conjunct2, THEN conjunct2, THEN conjunct2, THEN conjunct2]
  from Cons.IH [OF fl(4,5)] obtain flushed where flushedc:
    "requests (run_acc evs (acc_step a s0)) = requests (acc_step a s0) @ flushed
     \<and> concat flushed @ batch (run_acc evs (acc_step a s0)) = batch (acc_step a s0) @ added evs
     \<and> (\<forall>b \<in> set flushed. b \<noteq> [] \<and> length b \<le> 10)
     \<and> length (batch (run_acc evs (acc_step a s0))) < 10
     \<and> ((batch (run_acc evs (acc_step a s0)) = []) = (batchTimer (run_acc evs (acc_step a s0)) = None))" ..
  note flushed = flushedc [THEN conjunct1] flushedc [THEN conjunct2, THEN conjunct1]
    flushedc [THEN conjunct2, THEN conjunct2, THEN conjunct1]
    flushedc [THEN conjunct2, THEN conjunct2, THEN conjunct2, THEN conjunct1]
    flushedc [THEN conjunct2, THEN conjunct2, THEN conjunct2, THEN conjunct2]
  have split: "added (a # evs) = added [a] @ added evs"
    using added_append [of "[a]" evs] by simp
  have "concat (fl @ flushed) @ batch (run_acc evs (acc_step a s0))
      = concat fl @ (concat flushed @ batch (run_acc evs (acc_step a s0)))" by simp
  also have "\<dots> = concat fl @ (batch (acc_step a s0) @ added evs)"
    by (simp only: flushed(2))
  also have "\<dots> = (concat fl @ batch (acc_step a s0)) @ added evs" by simp
  also have "\<dots> = (batch s0 @ added [a]) @ added evs" by (simp only: fl(2))
  also have "\<dots> = batch s0 @ added (a # evs)" by (simp only: split append_assoc)
  finally have all: "concat (fl @ flushed) @ batch (run_acc evs (acc_step a s0))
      = batch s0 @ added (a # evs)" .
  have "requests (run_acc (a # evs) s0) = requests s0 @ (fl @ flushed)"
    using fl(1) flushed(1) by simp
  moreover have "\<forall>b \<in> set (fl @ flushed). b \<noteq> [] \<and> length b \<le> 10"
    using fl(3) flushed(3) by auto
  ultimately show ?case
    using all flushed(4,5) by (intro exI [of _ "fl @ flushed"]) simp
qed

text \<open>
  Claim C3. After any sequence of additions and timer expiries on an accumulator that starts
  empty with no timer: the flushed batches, in order, followed by the pending batch are
  exactly the added events in insertion order, and every flushed batch holds between one and
  ten events; fewer than ten events are pending, and a timer is pending exactly when the
  batch is not empty. From there, an addition flushes exactly when it is the tenth pending
  event, flushing the ten events and clearing the timer, and otherwise keeps the event and
  starts the timer of 5000 ms only if the batch was empty; the expiry of the timer flushes
  whatever is pending and clears the timer.
\<close>

theorem batch_accumulator_flushes:
  assumes "batch s0 = []" and "batchTimer s0 = None" and "s = run_acc evs s0"
  shows "(\<exists>flushed. requests s = requests s0 @ flushed
            \<and> concat flushed @ batch s = added evs
            \<and> (\<forall>b \<in> set flushed. b \<noteq> [] \<and> length b \<le> 10))
       \<and> length (batch s) < 10
       \<and> ((batch s = []) = (batchTimer s = None))
       \<and> addToBatch now e s =
            (if length (batch s) = 9
             then s\<lparr>batch := [], batchTimer := None, requests := requests s @ [batch s @ [e]]\<rparr>
             else s\<lparr>batch := batch s @ [e],
                    batchTimer := (if batch s = [] then Some (now + 5000) else batchTimer s)\<rparr>)
       \<and> acc_step Expire s =
            (if batch s = [] then s
             else s\<lparr>batch := [], batchTimer := None, requests := requests s @ [batch s]\<rparr>)"
proof -
  have inv0: "length (batch s0) < 10" "(batch s0 = []) = (batchTimer s0 = None)"
    using assms by simp_all
  have "\<exists>flushed. requests s = requests s0 @ flushed
           \<and> concat flushed @ batch s = batch s0 @ added evs
           \<and> (\<forall>b \<in> set flushed. b \<noteq> [] \<and> length b \<le> 10)
           \<and> length (batch s) < 10
           \<and> ((batch s = []) = (batchTimer s = None))"
    unfolding assms(3) by (rule run_acc_effect [OF inv0])
  then obtain flushed where run:
    "requests s = requests s0 @ flushed
           \<and> concat flushed @ batch s = batch s0 @ added evs
           \<and> (\<forall>b \<in> set flushed. b \<noteq> [] \<and> length b \<le> 10)
           \<and> length (batch s) < 10
           \<and> ((batch s = []) = (batchTimer s = None))" ..
  note flushed = run [THEN conjunct1] run [THEN conjunct2, THEN conjunct1]
    run [THEN conjunct2, THEN conjunct2, THEN conjunct1]
  note inv = run [THEN conjunct2, THEN conjunct2, THEN conjunct2, THEN conjunct1]
    run [THEN conjunct2, THEN conjunct2, THEN conjunct2, THEN conjunct2]
  have add: "addToBatch now e s =
            (if length (batch s) = 9
             then s\<lparr>batch := [], batchTimer := None, requests := requests s @ [batch s @ [e]]\<rparr>
             else s\<lparr>batch := batch s @ [e],
                    batchTimer := (if batch s = [] then Some (now + 5000) else batchTimer s)\<rparr>)"
    using inv by (auto simp: addToBatch_def flushBatch_def Let_def BATCH_SIZE_def BATCH_INTERVAL_def)
  have expire: "acc_step Expire s =
            (if batch s = [] then s
             else s\<lparr>batch := [], batchTimer := None, requests := requests s @ [batch s]\<rparr>)"
    using inv by (auto simp: flushBatch_def Let_def)
  have "concat flushed @ batch s = added evs"
    using flushed(2) assms(1) by simp
  with flushed(1,3) have "\<exists>flushed. requests s = requests s0 @ flushed
            \<and> concat flushed @ batch s = added evs
            \<and> (\<forall>b \<in> set flushed. b \<noteq> [] \<and> length b \<le> 10)"
    by (intro exI [of _ flushed] conjI)
  then show ?thesis
    using inv add expire by (intro conjI)
qed

text \<open>One event flushed by the timer, then a second event that starts a new timer.\<close>

theorem batch_accumulator_flushes_witness:
  "batch page = [] \<and> batchTimer page = None
   \<and> requests (run_acc [Add 1000 (ev ''a''), Expire, Add 7000 (ev ''b'')] page) = [[ev ''a'']]
   \<and> batch (run_acc [Add 1000 (ev ''a''), Expire, Add 7000 (ev ''b'')] page) = [ev ''b'']
   \<and> batchTimer (run_acc [Add 1000 (ev ''a''), Expire, Add 7000 (ev ''b'')] page) = Some 12000
   \<and> (\<exists>flushed. requests (run_acc [Add 1000 (ev ''a''), Expire, Add 7000 (ev ''b'')] page)
          = requests page @ flushed
        \<and> concat flushed @ batch (run_acc [Add 1000 (ev ''a''), Expire, Add 7000 (ev ''b'')] page)
          = [ev ''a'', ev ''b''])"
proof -
  let ?evs = "[Add 1000 (ev ''a''), Expire, Add 7000 (ev ''b'')]"
  have empty: "batch page = []" "batchTimer page = None" by (simp_all add: page_fields)
  have run: "run_acc ?evs page
      = page\<lparr>batch := [ev ''b''], batchTimer := Some 12000, requests := [[ev ''a'']]\<rparr>"
    by (simp add: addToBatch_def flushBatch_def Let_def BATCH_SIZE_def BATCH_INTERVAL_def page_fields)
  from batch_accumulator_flushes [OF empty refl, of ?evs]
  have "\<exists>flushed. requests (run_acc ?evs page) = requests page @ flushed
            \<and> concat flushed @ batch (run_acc ?evs page) = added ?evs
            \<and> (\<forall>b \<in> set flushed. b \<noteq> [] \<and> length b \<le> 10)"
    by (rule conjunct1)
  then obtain flushed where f: "requests (run_acc ?evs page) = requests page @ flushed
            \<and> concat flushed @ batch (run_acc ?evs page) = added ?evs
            \<and> (\<forall>b \<in> set flushed. b \<noteq> [] \<and> length b \<le> 10)" ..
  have a: "added ?evs = [ev ''a'', ev ''b'']" by simp
  have c: "concat flushed @ batch (run_acc ?evs page) = [ev ''a'', ev ''b'']"
    using f [THEN conjunct2, THEN conjunct1] unfolding a .
  have ex: "\<exists>flushed. requests (run_acc ?evs page) = requests page @ flushed
        \<and> concat flushed @ batch (run_acc ?evs page) = [ev ''a'', ev ''b'']"
    using f [THEN conjunct1] c by (intro exI [of _ flushed] conjI)
  have r1: "requests (run_acc ?evs page) = [[ev ''a'']]" by (subst run) simp
  have r2: "batch (run_acc ?evs page) = [ev ''b'']" by (subst run) simp
  have r3: "batchTimer (run_acc ?evs page) = Some 12000" by (subst run) simp
  from empty r1 r2 r3 ex show ?thesis by (intro conjI)
qed

section \<open>Properties of the breadcrumb trail\<close>

lemma addBreadcrumb_fields [simp]:
  "breadcrumbs (addBreadcrumb b s) = breadcrumbs s"
  "next_array (addBreadcrumb b s) = next_array s"
  "batch (addBreadcrumb b s) = batch s"
  "requests (addBreadcrumb b s) = requests s"
  "errorQueue (addBreadcrumb b s) = errorQueue s"
  "config (addBreadcrumb b s) = config s"
  by (simp_all add: addBreadcrumb_def Let_def)

lemma addBreadcrumb_other:
  "a \<noteq> breadcrumbs s \<Longrightarrow> arrays (addBreadcrumb b s) a = arrays s a"
  by (simp add: addBreadcrumb_def Let_def)

lemma addBreadcrumb_trail:
  "arrays (addBreadcrumb b s) (breadcrumbs s) =
     (if length (arrays s (breadcrumbs s)) \<ge> 30 then tl (arrays s (breadcrumbs s) @ [b])
      else arrays s (breadcrumbs s) @ [b])"
  by (simp add: addBreadcrumb_def Let_def BREADCRUMB_LIMIT_def)

lemma add_all_fields [simp]:
  "breadcrumbs (foldl (\<lambda>s' b. addBreadcrumb b s') s bs) = breadcrumbs s"
  "next_array (foldl (\<lambda>s' b. addBreadcrumb b s') s bs) = next_array s"
  "batch (foldl (\<lambda>s' b. addBreadcrumb b s') s bs) = batch s"
  "requests (foldl (\<lambda>s' b. addBreadcrumb b s') s bs) = requests s"
  by (induction bs arbitrary: s) simp_all

lemma add_all_other:
  "a \<noteq> breadcrumbs s \<Longrightarrow> arrays (foldl (\<lambda>s' b. addBreadcrumb b s') s bs) a = arrays s a"
  by (induction bs arbitrary: s) (simp_all add: addBreadcrumb_other)

lemma keep_last_30:
  "(if length (drop (length xs - 30) xs) \<ge> 30 then tl (drop (length xs - 30) xs @ [b])
    else drop (length xs - 30) xs @ [b])
   = drop (length (xs @ [b]) - 30) (xs @ [b])"
proof (cases "length xs \<ge> 30")
  case True
  define u where "u = drop (length xs - 30) xs"
  have len: "length u = 30" using True by (simp add: u_def)
  then have ne: "u \<noteq> []" by auto
  have "tl (u @ [b]) = tl u @ [b]" using ne by simp
  also have "tl u = drop (Suc (length xs - 30)) xs"
    by (simp add: u_def drop_Suc tl_drop)
  also have "\<dots> @ [b] = drop (length (xs @ [b]) - 30) (xs @ [b])"
  proof -
    have "Suc (length xs - 30) = length xs - 29" using True by arith
    then show ?thesis using True by simp
  qed
  finally show ?thesis using len by (simp add: u_def)
next
  case False
  then show ?thesis by simp
qed

lemma add_all_trail:
  "arrays (foldl (\<lambda>s' b. addBreadcrumb b s') s bs) (breadcrumbs s)
           = drop (length (arrays s (breadcrumbs s) @ bs) - 30) (arrays s (breadcrumbs s) @ bs)"
  if "length (arrays s (breadcrumbs s)) \<le> 30"
proof (induction bs rule: rev_induct)
  case Nil
  then show ?case using that by simp
next
  case (snoc b bs)
  define xs where "xs = arrays s (breadcrumbs s) @ bs"
  let ?s' = "foldl (\<lambda>s' b. addBreadcrumb b s') s bs"
  have u: "arrays ?s' (breadcrumbs ?s') = drop (length xs - 30) xs"
    using snoc by (simp add: xs_def)
  have "arrays (addBreadcrumb b ?s') (breadcrumbs ?s') =
      (if length (drop (length xs - 30) xs) \<ge> 30 then tl (drop (length xs - 30) xs @ [b])
       else drop (length xs - 30) xs @ [b])"
    by (simp only: addBreadcrumb_trail u)
  also have "\<dots> = drop (length (xs @ [b]) - 30) (xs @ [b])"
    by (rule keep_last_30)
  finally show ?case by (simp add: xs_def)
qed

lemma slice_breadcrumbs_fields [simp]:
  "fst (slice_breadcrumbs s) = next_array s"
  "breadcrumbs (snd (slice_breadcrumbs s)) = breadcrumbs s"
  "next_array (snd (slice_breadcrumbs s)) = Suc (next_array s)"
  "arrays (snd (slice_breadcrumbs s)) (next_array s) = arrays s (breadcrumbs s)"
  "batch (snd (slice_breadcrumbs s)) = batch s"
  "requests (snd (slice_breadcrumbs s)) = requests s"
  "errorQueue (snd (slice_breadcrumbs s)) = errorQueue s"
  "config (snd (slice_breadcrumbs s)) = config s"
  "sessionId (snd (slice_breadcrumbs s)) = sessionId s"
  "userId (snd (slice_breadcrumbs s)) = userId s"
  "sessionStartTime (snd (slice_breadcrumbs s)) = sessionStartTime s"
  by (simp_all add: slice_breadcrumbs_def)

lemma slice_breadcrumbs_other:
  "a \<noteq> next_array s \<Longrightarrow> arrays (snd (slice_breadcrumbs s)) a = arrays s a"
  by (simp add: slice_breadcrumbs_def)

lemma attach_metadata_eq:
  "attach_metadata e s =
     (merge_metadata (next_array s) (snd (slice_breadcrumbs s)) e, snd (slice_breadcrumbs s))"
  by (simp add: attach_metadata_def slice_breadcrumbs_def)

lemma merge_metadata_fields [simp]:
  "metadata_field (merge_metadata a s e) ''breadcrumbs'' = ArrayRef a"
  "metadata_field (merge_metadata a s e) ''sessionId'' = Str (sessionId s)"
  "metadata_field (merge_metadata a s e) ''sessionStart'' = Num (sessionStartTime s)"
  "message (merge_metadata a s e) = message e"
  "severity (merge_metadata a s e) = severity e"
  "stack (merge_metadata a s e) = stack e"
  "screenRecording (merge_metadata a s e) = screenRecording e"
  by (simp_all add: merge_metadata_def metadata_field_def)

lemma last_30_append:
  "drop (length (drop (length xs - 30) xs @ ys) - 30) (drop (length xs - 30) xs @ ys)
     = drop (length (xs @ ys) - 30) (xs @ (ys::'a list))"
proof -
  define k where "k = length xs - 30"
  define zs where "zs = xs @ ys"
  have k: "k \<le> length xs" by (simp add: k_def)
  then have "drop k xs @ ys = drop k zs" by (simp add: zs_def)
  moreover have "length (drop k zs) - 30 + k = length zs - 30"
    by (simp add: k_def zs_def)
  ultimately show ?thesis
    unfolding k_def [symmetric] zs_def [symmetric] by (simp only: drop_drop)
qed

text \<open>
  Claim C6. A trail of at most 30 entries holds, after any additions, the last 30 of the
  entries it had followed by the added ones, in that order. The snapshot that the metadata
  step of the capture pipeline stores in an event is a new array holding exactly that
  sequence; it is not the trail, and additions to the trail made afterwards change the trail
  but not the array stored in the event.
\<close>

theorem breadcrumb_trail_bounded_and_copied:
  assumes bound: "length (arrays s (breadcrumbs s)) \<le> 30"
    and allocated: "breadcrumbs s < next_array s"
  shows "length (arrays (foldl (\<lambda>s' b. addBreadcrumb b s') s bs) (breadcrumbs s)) \<le> 30
       \<and> arrays (foldl (\<lambda>s' b. addBreadcrumb b s') s bs) (breadcrumbs s)
           = drop (length (arrays s (breadcrumbs s) @ bs) - 30) (arrays s (breadcrumbs s) @ bs)
       \<and> (\<exists>a. metadata_field (fst (attach_metadata e (foldl (\<lambda>s' b. addBreadcrumb b s') s bs)))
                 ''breadcrumbs'' = ArrayRef a
             \<and> a \<noteq> breadcrumbs s
             \<and> arrays (snd (attach_metadata e (foldl (\<lambda>s' b. addBreadcrumb b s') s bs))) a
                 = drop (length (arrays s (breadcrumbs s) @ bs) - 30) (arrays s (breadcrumbs s) @ bs)
             \<and> arrays (foldl (\<lambda>s' b. addBreadcrumb b s')
                         (snd (attach_metadata e (foldl (\<lambda>s' b. addBreadcrumb b s') s bs))) later) a
                 = drop (length (arrays s (breadcrumbs s) @ bs) - 30) (arrays s (breadcrumbs s) @ bs)
             \<and> arrays (foldl (\<lambda>s' b. addBreadcrumb b s')
                         (snd (attach_metadata e (foldl (\<lambda>s' b. addBreadcrumb b s') s bs))) later)
                   (breadcrumbs s)
                 = drop (length (arrays s (breadcrumbs s) @ bs @ later) - 30)
                     (arrays s (breadcrumbs s) @ bs @ later))"
proof -
  let ?t = "arrays s (breadcrumbs s)"
  let ?s1 = "foldl (\<lambda>s' b. addBreadcrumb b s') s bs"
  let ?s2 = "snd (slice_breadcrumbs ?s1)"
  let ?a = "next_array s"
  have trail: "arrays ?s1 (breadcrumbs s) = drop (length (?t @ bs) - 30) (?t @ bs)"
    by (rule add_all_trail [OF bound])
  then have len: "length (arrays ?s1 (breadcrumbs s)) \<le> 30" by simp
  have fresh: "?a \<noteq> breadcrumbs s" using allocated by simp
  have snap: "arrays ?s2 ?a = drop (length (?t @ bs) - 30) (?t @ bs)"
    using slice_breadcrumbs_fields(4) [of ?s1] trail by simp
  have kept: "arrays (foldl (\<lambda>s' b. addBreadcrumb b s') ?s2 later) ?a
      = drop (length (?t @ bs) - 30) (?t @ bs)"
    using add_all_other [of ?a ?s2 later] fresh snap by simp
  have trail2: "arrays ?s2 (breadcrumbs ?s2) = arrays ?s1 (breadcrumbs s)"
    using slice_breadcrumbs_other [of "breadcrumbs s" ?s1] fresh by simp
  have "arrays (foldl (\<lambda>s' b. addBreadcrumb b s') ?s2 later) (breadcrumbs ?s2)
      = drop (length (arrays ?s2 (breadcrumbs ?s2) @ later) - 30) (arrays ?s2 (breadcrumbs ?s2) @ later)"
    using len by (intro add_all_trail) (simp only: trail2)
  also have "\<dots> = drop (length (?t @ bs @ later) - 30) (?t @ bs @ later)"
    unfolding trail2 trail using last_30_append [of "?t @ bs" later] by simp
  finally have moved: "arrays (foldl (\<lambda>s' b. addBreadcrumb b s') ?s2 later) (breadcrumbs s)
      = drop (length (?t @ bs @ later) - 30) (?t @ bs @ later)" by simp
  have meta: "metadata_field (fst (attach_metadata e ?s1)) ''breadcrumbs'' = ArrayRef ?a"
    by (simp add: attach_metadata_eq)
  have s2: "snd (attach_metadata e ?s1) = ?s2" by (simp add: attach_metadata_eq)
  show ?thesis
    using len trail meta fresh snap kept moved unfolding s2
    by (intro conjI exI [of _ ?a])
qed

text \<open>Thirty-one clicks on a new page, a capture, one more click.\<close>

theorem breadcrumb_trail_bounded_and_copied_witness:
  "length (arrays page (breadcrumbs page)) \<le> 30 \<and> breadcrumbs page < next_array page
   \<and> arrays (foldl (\<lambda>s' b. addBreadcrumb b s') page (map crumb [0..<31])) (breadcrumbs page)
       = map crumb [1..<31]
   \<and> (\<exists>a. metadata_field
              (fst (attach_metadata (ev ''a'')
                 (foldl (\<lambda>s' b. addBreadcrumb b s') page (map crumb [0..<31]))))
              ''breadcrumbs'' = ArrayRef a
         \<and> arrays (foldl (\<lambda>s' b. addBreadcrumb b s')
               (snd (attach_metadata (ev ''a'')
                 (foldl (\<lambda>s' b. addBreadcrumb b s') page (map crumb [0..<31]))))
               [crumb 31]) a
             = map crumb [1..<31]
         \<and> arrays (foldl (\<lambda>s' b. addBreadcrumb b s')
               (snd (attach_metadata (ev ''a'')
                 (foldl (\<lambda>s' b. addBreadcrumb b s') page (map crumb [0..<31]))))
               [crumb 31]) (breadcrumbs page)
             = map crumb [2..<32])"
proof -
  have bound: "length (arrays page (breadcrumbs page)) \<le> 30" by (simp add: page_fields)
  have allocated: "breadcrumbs page < next_array page" by (simp add: page_fields)
  have t1: "drop (length (arrays page (breadcrumbs page) @ map crumb [0..<31]) - 30)
              (arrays page (breadcrumbs page) @ map crumb [0..<31]) = map crumb [1..<31]"
    by (simp add: page_fields drop_map del: upt_rec_numeral)
  have t2: "drop (length (arrays page (breadcrumbs page) @ map crumb [0..<31] @ [crumb 31]) - 30)
              (arrays page (breadcrumbs page) @ map crumb [0..<31] @ [crumb 31]) = map crumb [2..<32]"
  proof -
    have "map crumb [0..<31] @ [crumb 31] = map crumb [0..<32]"
      using upt_Suc_append [of 0 31] by (simp del: upt_rec_numeral)
    then show ?thesis
      by (simp add: page_fields drop_map numeral_2_eq_2 [symmetric] del: upt_rec_numeral)
  qed
  show ?thesis
    using breadcrumb_trail_bounded_and_copied [OF bound allocated, of "map crumb [0..<31]" "ev ''a''" "[crumb 31]"]
    unfolding t1 t2 using bound allocated by blast
qed

section \<open>Properties of the session recorder\<close>

lemma restartRecording_while_recording:
  "isRecording s \<Longrightarrow>
   restartRecording s = (if stopRecording s then s\<lparr>recorder_live := False\<rparr> else s)"
  by (simp add: restartRecording_def startScreenRecording_def)

text \<open>
  Claim C4 (the code departs from it). On a page that records with the default limit of
  30000 ms, a frame arriving 30001 ms after the first buffered frame makes the recorder call
  \<open>restartRecording\<close>. The recorder is stopped, but \<open>isRecording\<close> is still set when
  \<open>startScreenRecording\<close> runs, so nothing is restarted: the buffer keeps both frames, the
  emit callback is not registered again, and a later frame is never recorded.
\<close>

theorem restartRecording_does_not_restart:
  "recordingEvents (record_frames [(1000, frame 1000), (31001, frame 31001)] page)
     = [frame 1000, frame 31001]
   \<and> \<not> recorder_live (record_frames [(1000, frame 1000), (31001, frame 31001)] page)
   \<and> isRecording (record_frames [(1000, frame 1000), (31001, frame 31001)] page)
   \<and> record_frames [(1000, frame 1000), (31001, frame 31001), (32000, frame 32000)] page
     = record_frames [(1000, frame 1000), (31001, frame 31001)] page"
proof -
  have one: "recorder_emits 1000 (frame 1000) page = page\<lparr>recordingEvents := [frame 1000]\<rparr>"
    by (simp add: recorder_emits_def emit_def page_fields default_config_def frame_def)
  have two: "recorder_emits 31001 (frame 31001) (page\<lparr>recordingEvents := [frame 1000]\<rparr>)
      = page\<lparr>recordingEvents := [frame 1000, frame 31001], recorder_live := False\<rparr>"
    by (simp add: recorder_emits_def emit_def page_fields default_config_def frame_def
        restartRecording_def startScreenRecording_def)
  have three: "recorder_emits 32000 (frame 32000)
        (page\<lparr>recordingEvents := [frame 1000, frame 31001], recorder_live := False\<rparr>)
      = page\<lparr>recordingEvents := [frame 1000, frame 31001], recorder_live := False\<rparr>"
    by (simp add: recorder_emits_def)
  have run2: "record_frames [(1000, frame 1000), (31001, frame 31001)] page
      = page\<lparr>recordingEvents := [frame 1000, frame 31001], recorder_live := False\<rparr>"
    by (simp add: one two)
  have run3: "record_frames [(1000, frame 1000), (31001, frame 31001), (32000, frame 32000)] page
      = page\<lparr>recordingEvents := [frame 1000, frame 31001], recorder_live := False\<rparr>"
    by (simp add: one two three)
  show ?thesis unfolding run3 unfolding run2 by (simp add: page_fields)
qed

section \<open>Properties of the capture pipeline\<close>

lemma console_log_fields [simp]:
  "config (console_log now args s) = config s"
  "batch (console_log now args s) = batch s"
  "requests (console_log now args s) = requests s"
  "errorQueue (console_log now args s) = errorQueue s"
  "breadcrumbs (console_log now args s) = breadcrumbs s"
  "next_array (console_log now args s) = next_array s"
  by (simp_all add: console_log_def)

lemma attach_recording_fields:
  assumes "attach_recording now e s = Inr (e1, s1)"
  shows "config s1 = config s" "batch s1 = batch s" "requests s1 = requests s"
    "errorQueue s1 = errorQueue s" "message e1 = message e" "metadata e1 = metadata e"
    "severity e1 = severity e" "stack e1 = stack e"
  using assms
  by (auto simp: attach_recording_def split: if_splits sum.splits)

lemma attach_metadata_fields [simp]:
  "config (snd (attach_metadata e s)) = config s"
  "batch (snd (attach_metadata e s)) = batch s"
  "requests (snd (attach_metadata e s)) = requests s"
  "errorQueue (snd (attach_metadata e s)) = errorQueue s"
  "message (fst (attach_metadata e s)) = message e"
  "severity (fst (attach_metadata e s)) = severity e"
  "stack (fst (attach_metadata e s)) = stack e"
  "screenRecording (fst (attach_metadata e s)) = screenRecording e"
  by (simp_all add: attach_metadata_eq)


lemma handleError_accepted:
  assumes "beforeSend (config s) (ErrorData.extend e \<lparr>type = Some ''error''\<rparr>) = Inr (Some p)"
    and "attach_recording now e s = Inr (e1, s1)"
    and "\<forall>h. onErrorCaptured (config s) = Some h \<longrightarrow> h (fst (attach_metadata e1 s1)) = None"
  shows "handleError now e s
           = (addToBatch now (fst (attach_metadata e1 s1)) (snd (attach_metadata e1 s1)), [])"
proof -
  have cfg: "config (snd (attach_metadata e1 s1)) = config s"
    using attach_recording_fields(1) [OF assms(2)] by simp
  show ?thesis
  proof (cases "onErrorCaptured (config s)")
    case None
    then show ?thesis using assms(1,2) cfg by (simp add: handleError_def split_beta)
  next
    case (Some h)
    then have "h (fst (attach_metadata e1 s1)) = None" using assms(3) by simp
    then show ?thesis using Some assms(1,2) cfg by (simp add: handleError_def split_beta)
  qed
qed


lemma handleError_catch_fields [simp]:
  "errorQueue (fst (handleError_catch e err s)) = errorQueue s @ [e]"
  "batch (fst (handleError_catch e err s)) = batch s"
  "requests (fst (handleError_catch e err s)) = requests s"
  "snd (handleError_catch e err s)
     = [Warn [''ErrorWatch: Failed to queue error for batch'', error_text err]]"
  by (simp_all add: handleError_catch_def)




lemma with_context_fields:
  "beforeSend (config with_context)
     = wrap_beforeSend ''user'' (user_object ''12345'' (Some ''user@example.com'') (Some ''John Doe''))
         (wrap_beforeSend ''version'' (Str ''1.2.3'') (\<lambda>ev. Inr (Some ev)))"
  "onErrorCaptured (config with_context) = None"
  "enableScreenRecording (config with_context) = True"
  "recordingEvents with_context = []" "batch with_context = []" "batchTimer with_context = None"
  "userId with_context = Some ''12345''" "isBrowser with_context = True"
  "location_href with_context = ''https://shop.example/cart''"
  "navigator_userAgent with_context = ''Mozilla/5.0''"
  by (simp_all add: with_context_def setUser_def setContext_def page_fields default_config_def)

lemma hello_is_transformed:
  "beforeSend (config with_context) (ErrorData.extend hello \<lparr>type = Some ''error''\<rparr>)
     = Inr (Some hello_transformed)"
  by (simp add: with_context_fields wrap_beforeSend_def hello_transformed_def)

lemma captureMessage_hello: "captureMessage 2000 ''hello'' info None with_context = handleError 2000 hello with_context"
  by (simp add: captureMessage_def with_context_fields hello_def)

lemma hello_no_recording: "attach_recording 2000 hello with_context = Inr (hello, with_context)"
  by (simp add: attach_recording_def with_context_fields)

lemma hello_handled: "handleError 2000 hello with_context
   = (addToBatch 2000 (fst (attach_metadata hello with_context)) (snd (attach_metadata hello with_context)), [])"
  by (rule handleError_accepted [OF hello_is_transformed hello_no_recording]) (simp add: with_context_fields)

lemma hello_batched: "batch (fst (handleError 2000 hello with_context)) = [fst (attach_metadata hello with_context)]"
  unfolding hello_handled
  by (simp add: addToBatch_def with_context_fields BATCH_SIZE_def Let_def)

text \<open>
  Claim C2 (the code departs from it). After \<open>setContext('version', '1.2.3')\<close> and
  \<open>setUser\<close> with id 12345, \<open>captureMessage('hello')\<close> runs the wrapped
  \<open>beforeSend\<close>, whose result carries \<open>version\<close> and \<open>user\<close> in its metadata. The
  pipeline then goes on with the event it was called with: the event handed to the batch has
  neither key, and the item built for it by \<open>sendBatch\<close> has an empty \<open>user_id\<close>. A
  \<open>beforeSend\<close> that returns null does end the processing (\<open>handleError_discarded\<close>).
\<close>

theorem beforeSend_result_is_not_used:
  "beforeSend (config with_context) (ErrorData.extend hello \<lparr>type = Some ''error''\<rparr>)
     = Inr (Some hello_transformed)
   \<and> metadata_field hello_transformed ''version'' = Str ''1.2.3''
   \<and> get_prop (metadata_field hello_transformed ''user'') ''id'' = Str ''12345''
   \<and> map (\<lambda>e. metadata_field e ''version'')
         (batch (fst (captureMessage 2000 ''hello'' info None with_context))) = [Undefined]
   \<and> map (\<lambda>e. metadata_field e ''user'')
         (batch (fst (captureMessage 2000 ''hello'' info None with_context))) = [Undefined]
   \<and> map user_id (sendBatch_body (batch (fst (captureMessage 2000 ''hello'' info None with_context))))
       = [Str []]"
proof -
  have v: "metadata_field hello_transformed ''version'' = Str ''1.2.3''"
    by (simp add: hello_transformed_def with_metadata_def metadata_field_def)
  have u: "get_prop (metadata_field hello_transformed ''user'') ''id'' = Str ''12345''"
    by (simp add: hello_transformed_def with_metadata_def metadata_field_def get_prop_def
        user_object_def)
  have b: "batch (fst (captureMessage 2000 ''hello'' info None with_context))
      = [fst (attach_metadata hello with_context)]"
    by (simp only: captureMessage_hello hello_batched)
  have m1: "metadata_field (fst (attach_metadata hello with_context)) ''version'' = Undefined"
    by (simp add: attach_metadata_eq merge_metadata_def metadata_field_def hello_def)
  have m2: "metadata_field (fst (attach_metadata hello with_context)) ''user'' = Undefined"
    by (simp add: attach_metadata_eq merge_metadata_def metadata_field_def hello_def)
  have m3: "user_id (sendBatch_item (fst (attach_metadata hello with_context))) = Str []"
    by (simp add: attach_metadata_eq merge_metadata_def metadata_field_def hello_def
        sendBatch_item_def or_else_def get_prop_def truthy_def)
  show ?thesis
    unfolding b using hello_is_transformed v u m1 m2 m3 by (simp add: sendBatch_body_def)
qed

section \<open>Properties of teardown\<close>

lemma destroy_fields:
  "recordingEvents (destroy s) = []" "isRecording (destroy s) = False"
  "batchTimer (destroy s) = None" "batch (destroy s) = []"
  "requests (destroy s) = (if batch s = [] then requests s else requests s @ [batch s])"
  "listeners (destroy s) = listeners s" "config (destroy s) = config s"
  "console_error_patched (destroy s) = console_error_patched s"
  "console_warn_patched (destroy s) = console_warn_patched s"
  "console_log_patched (destroy s) = console_log_patched s"
  "recorder_live (destroy s) = (recorder_live s \<and> \<not> stopRecording s)"
  by (simp_all add: destroy_def flushBatch_def Let_def)

lemma attach_metadata_timer [simp]:
  "batchTimer (snd (attach_metadata e s)) = batchTimer s"
  by (simp add: attach_metadata_eq slice_breadcrumbs_def)

lemma handleError_after_destroy:
  assumes "beforeSend (config s) (ErrorData.extend e \<lparr>type = Some ''error''\<rparr>) = Inr (Some p)"
    and "onErrorCaptured (config s) = None"
  shows "snd (handleError now e (destroy s)) = []
       \<and> batch (fst (handleError now e (destroy s))) = [fst (attach_metadata e (destroy s))]
       \<and> batchTimer (fst (handleError now e (destroy s))) = Some (now + 5000)
       \<and> requests (acc_step Expire (fst (handleError now e (destroy s))))
           = requests (destroy s) @ [[fst (attach_metadata e (destroy s))]]"
proof -
  let ?d = "destroy s"
  have rec: "attach_recording now e ?d = Inr (e, ?d)"
    by (simp add: attach_recording_def destroy_fields)
  have acc: "beforeSend (config ?d) (ErrorData.extend e \<lparr>type = Some ''error''\<rparr>) = Inr (Some p)"
    using assms(1) by (simp add: destroy_fields)
  have hook: "\<forall>h. onErrorCaptured (config ?d) = Some h \<longrightarrow> h (fst (attach_metadata e ?d)) = None"
    using assms(2) by (simp add: destroy_fields)
  have h: "handleError now e ?d
      = (addToBatch now (fst (attach_metadata e ?d)) (snd (attach_metadata e ?d)), [])"
    by (rule handleError_accepted [OF acc rec hook])
  have add: "addToBatch now (fst (attach_metadata e ?d)) (snd (attach_metadata e ?d))
      = (snd (attach_metadata e ?d))\<lparr>batch := [fst (attach_metadata e ?d)],
           batchTimer := Some (now + 5000)\<rparr>"
    by (simp add: addToBatch_def Let_def destroy_fields BATCH_SIZE_def BATCH_INTERVAL_def)
  show ?thesis
    unfolding h add by (simp add: flushBatch_def Let_def)
qed

text \<open>
  Claim C10. \<open>destroy\<close> stops the recorder, clears the frame buffer, cancels the batch timer
  and hands the pending batch to the transport. It leaves the window listeners and the
  console wrappers installed. So, with a transform that accepts every event and no analytics
  hook: a window \<open>error\<close> event, a \<open>console.error\<close> and a \<open>console.warn\<close> after
  \<open>destroy\<close> are captured into the batch of the destroyed instance, a new timer of 5000 ms
  is started, and its expiry sends the batch; a \<open>console.log\<close> is still recorded as a
  breadcrumb.
\<close>

theorem destroy_keeps_capturing:
  assumes accepts: "\<forall>x. \<exists>p. beforeSend (config s) x = Inr (Some p)"
    and no_hook: "onErrorCaptured (config s) = None"
  shows "recordingEvents (destroy s) = [] \<and> \<not> isRecording (destroy s)
       \<and> (stopRecording s \<longrightarrow> \<not> recorder_live (destroy s))
       \<and> batchTimer (destroy s) = None \<and> batch (destroy s) = []
       \<and> requests (destroy s) = (if batch s = [] then requests s else requests s @ [batch s])
       \<and> listeners (destroy s) = listeners s
       \<and> console_error_patched (destroy s) = console_error_patched s
       \<and> console_warn_patched (destroy s) = console_warn_patched s
       \<and> console_log_patched (destroy s) = console_log_patched s
       \<and> (''error'' \<in> set (listeners s) \<longrightarrow>
             snd (window_error now event (destroy s)) = []
           \<and> map message (batch (fst (window_error now event (destroy s)))) = [ev_message event]
           \<and> batchTimer (fst (window_error now event (destroy s))) = Some (now + 5000)
           \<and> requests (acc_step Expire (fst (window_error now event (destroy s))))
               = requests (destroy s) @ [batch (fst (window_error now event (destroy s)))])
       \<and> (console_error_patched s \<longrightarrow>
             snd (console_error now args (destroy s)) = []
           \<and> map message (batch (fst (console_error now args (destroy s)))) = [join '' '' args]
           \<and> map severity (batch (fst (console_error now args (destroy s)))) = [error]
           \<and> requests (acc_step Expire (fst (console_error now args (destroy s))))
               = requests (destroy s) @ [batch (fst (console_error now args (destroy s)))])
       \<and> (console_warn_patched s \<longrightarrow>
             snd (console_warn now args (destroy s)) = []
           \<and> map message (batch (fst (console_warn now args (destroy s)))) = [join '' '' args]
           \<and> map severity (batch (fst (console_warn now args (destroy s)))) = [warning]
           \<and> requests (acc_step Expire (fst (console_warn now args (destroy s))))
               = requests (destroy s) @ [batch (fst (console_warn now args (destroy s)))])
       \<and> (console_log_patched s \<longrightarrow>
             console_log now args (destroy s)
               = addBreadcrumb \<lparr>crumb_type = ''console'', crumb_message = ''log'',
                   crumb_data = Obj [(''args'', Arr (map Str args))], crumb_timestamp = now\<rparr>
                   (destroy s))"
proof -
  have captured: "snd (handleError now e (destroy s)) = []
       \<and> map message (batch (fst (handleError now e (destroy s)))) = [message e]
       \<and> map severity (batch (fst (handleError now e (destroy s)))) = [severity e]
       \<and> batchTimer (fst (handleError now e (destroy s))) = Some (now + 5000)
       \<and> requests (acc_step Expire (fst (handleError now e (destroy s))))
           = requests (destroy s) @ [batch (fst (handleError now e (destroy s)))]" for e
  proof -
    from accepts obtain p where
      p: "beforeSend (config s) (ErrorData.extend e \<lparr>type = Some ''error''\<rparr>) = Inr (Some p)"
      by blast
    note h = handleError_after_destroy [OF p no_hook, of now]
    show ?thesis
      using h [THEN conjunct1] h [THEN conjunct2, THEN conjunct2, THEN conjunct1]
        h [THEN conjunct2, THEN conjunct2, THEN conjunct2]
      unfolding h [THEN conjunct2, THEN conjunct1]
      by simp
  qed
  have window: "''error'' \<in> set (listeners s) \<longrightarrow>
             snd (window_error now event (destroy s)) = []
           \<and> map message (batch (fst (window_error now event (destroy s)))) = [ev_message event]
           \<and> batchTimer (fst (window_error now event (destroy s))) = Some (now + 5000)
           \<and> requests (acc_step Expire (fst (window_error now event (destroy s))))
               = requests (destroy s) @ [batch (fst (window_error now event (destroy s)))]"
  proof
    assume l: "''error'' \<in> set (listeners s)"
    have w: "window_error now event (destroy s)
        = handleError now (error_event_data now event (destroy s)) (destroy s)"
      using l by (simp add: window_error_def destroy_fields(6))
    have m: "message (error_event_data now event (destroy s)) = ev_message event"
      by (simp add: error_event_data_def)
    note c = captured [of "error_event_data now event (destroy s)", unfolded m]
    show "snd (window_error now event (destroy s)) = []
           \<and> map message (batch (fst (window_error now event (destroy s)))) = [ev_message event]
           \<and> batchTimer (fst (window_error now event (destroy s))) = Some (now + 5000)
           \<and> requests (acc_step Expire (fst (window_error now event (destroy s))))
               = requests (destroy s) @ [batch (fst (window_error now event (destroy s)))]"
      unfolding w
      using c [THEN conjunct1] c [THEN conjunct2, THEN conjunct1]
        c [THEN conjunct2, THEN conjunct2, THEN conjunct2, THEN conjunct1]
        c [THEN conjunct2, THEN conjunct2, THEN conjunct2, THEN conjunct2]
      by (intro conjI)
  qed
  have cerror: "console_error_patched s \<longrightarrow>
             snd (console_error now args (destroy s)) = []
           \<and> map message (batch (fst (console_error now args (destroy s)))) = [join '' '' args]
           \<and> map severity (batch (fst (console_error now args (destroy s)))) = [error]
           \<and> requests (acc_step Expire (fst (console_error now args (destroy s))))
               = requests (destroy s) @ [batch (fst (console_error now args (destroy s)))]"
  proof
    assume l: "console_error_patched s"
    define e where "e = \<lparr>message = join '' '' args, stack = None,
        url = location_href (destroy s), line = None,
        column = None, userAgent = navigator_userAgent (destroy s), timestamp = now,
        severity = error,
        metadata = Some [''type'' \<mapsto> Str ''console.error'', ''args'' \<mapsto> Arr (map Str args)],
        screenRecording = None\<rparr>"
    have w: "console_error now args (destroy s) = handleError now e (destroy s)"
      using l by (simp add: console_error_def destroy_fields(8) e_def)
    have m: "message e = join '' '' args" "severity e = error" by (simp_all add: e_def)
    note c = captured [of e, unfolded m]
    show "snd (console_error now args (destroy s)) = []
           \<and> map message (batch (fst (console_error now args (destroy s)))) = [join '' '' args]
           \<and> map severity (batch (fst (console_error now args (destroy s)))) = [error]
           \<and> requests (acc_step Expire (fst (console_error now args (destroy s))))
               = requests (destroy s) @ [batch (fst (console_error now args (destroy s)))]"
      unfolding w
      using c [THEN conjunct1] c [THEN conjunct2, THEN conjunct1]
        c [THEN conjunct2, THEN conjunct2, THEN conjunct1]
        c [THEN conjunct2, THEN conjunct2, THEN conjunct2, THEN conjunct2]
      by (intro conjI)
  qed
  have cwarn: "console_warn_patched s \<longrightarrow>
             snd (console_warn now args (destroy s)) = []
           \<and> map message (batch (fst (console_warn now args (destroy s)))) = [join '' '' args]
           \<and> map severity (batch (fst (console_warn now args (destroy s)))) = [warning]
           \<and> requests (acc_step Expire (fst (console_warn now args (destroy s))))
               = requests (destroy s) @ [batch (fst (console_warn now args (destroy s)))]"
  proof
    assume l: "console_warn_patched s"
    define e where "e = \<lparr>message = join '' '' args, stack = None,
        url = location_href (destroy s), line = None,
        column = None, userAgent = navigator_userAgent (destroy s), timestamp = now,
        severity = warning,
        metadata = Some [''type'' \<mapsto> Str ''console.warn'', ''args'' \<mapsto> Arr (map Str args)],
        screenRecording = None\<rparr>"
    have w: "console_warn now args (destroy s) = handleError now e (destroy s)"
      using l by (simp add: console_warn_def destroy_fields(9) e_def)
    have m: "message e = join '' '' args" "severity e = warning" by (simp_all add: e_def)
    note c = captured [of e, unfolded m]
    show "snd (console_warn now args (destroy s)) = []
           \<and> map message (batch (fst (console_warn now args (destroy s)))) = [join '' '' args]
           \<and> map severity (batch (fst (console_warn now args (destroy s)))) = [warning]
           \<and> requests (acc_step Expire (fst (console_warn now args (destroy s))))
               = requests (destroy s) @ [batch (fst (console_warn now args (destroy s)))]"
      unfolding w
      using c [THEN conjunct1] c [THEN conjunct2, THEN conjunct1]
        c [THEN conjunct2, THEN conjunct2, THEN conjunct1]
        c [THEN conjunct2, THEN conjunct2, THEN conjunct2, THEN conjunct2]
      by (intro conjI)
  qed
  have clog: "console_log_patched s \<longrightarrow>
             console_log now args (destroy s)
               = addBreadcrumb \<lparr>crumb_type = ''console'', crumb_message = ''log'',
                   crumb_data = Obj [(''args'', Arr (map Str args))], crumb_timestamp = now\<rparr>
                   (destroy s)"
    by (simp add: console_log_def destroy_fields)
  have stopped: "stopRecording s \<longrightarrow> \<not> recorder_live (destroy s)"
    by (simp add: destroy_fields)
  have not_recording: "\<not> isRecording (destroy s)" by (simp add: destroy_fields)
  show ?thesis
    using destroy_fields(1) [of s] not_recording stopped destroy_fields(3,4,5,6,8,9,10) [of s]
      window cerror cwarn clog
    by (intro conjI)
qed

text \<open>A page with one pending event and one recorded frame is destroyed; an uncaught error
  follows 3 s later.\<close>

theorem destroy_keeps_capturing_witness:
  "beforeSend (config (page\<lparr>batch := [ev ''a''], batchTimer := Some 6000, recordingEvents := [frame 1000]\<rparr>))
     = (\<lambda>x. Inr (Some x))
   \<and> onErrorCaptured (config (page\<lparr>batch := [ev ''a''], batchTimer := Some 6000, recordingEvents := [frame 1000]\<rparr>)) = None
   \<and> ''error'' \<in> set (listeners (page\<lparr>batch := [ev ''a''], batchTimer := Some 6000, recordingEvents := [frame 1000]\<rparr>))
   \<and> recordingEvents (destroy (page\<lparr>batch := [ev ''a''], batchTimer := Some 6000, recordingEvents := [frame 1000]\<rparr>)) = []
   \<and> requests (destroy (page\<lparr>batch := [ev ''a''], batchTimer := Some 6000, recordingEvents := [frame 1000]\<rparr>)) = [[ev ''a'']]
   \<and> listeners (destroy (page\<lparr>batch := [ev ''a''], batchTimer := Some 6000, recordingEvents := [frame 1000]\<rparr>))
       = [''online'', ''beforeunload'', ''error'', ''unhandledrejection'', ''popstate'', ''hashchange'', ''click'']
   \<and> map message (batch (fst (window_error 9000
         \<lparr>ev_message = ''boom'', ev_stack = None, ev_filename = ''app.js'', ev_lineno = 3, ev_colno = 7\<rparr>
         (destroy (page\<lparr>batch := [ev ''a''], batchTimer := Some 6000, recordingEvents := [frame 1000]\<rparr>)))))
       = [''boom'']
   \<and> batchTimer (fst (window_error 9000
         \<lparr>ev_message = ''boom'', ev_stack = None, ev_filename = ''app.js'', ev_lineno = 3, ev_colno = 7\<rparr>
         (destroy (page\<lparr>batch := [ev ''a''], batchTimer := Some 6000, recordingEvents := [frame 1000]\<rparr>))))
       = Some 14000"
proof -
  let ?s = "page\<lparr>batch := [ev ''a''], batchTimer := Some 6000, recordingEvents := [frame 1000]\<rparr>"
  let ?boom = "\<lparr>ev_message = ''boom'', ev_stack = None, ev_filename = ''app.js'', ev_lineno = 3, ev_colno = 7\<rparr>"
  have b: "beforeSend (config ?s) = (\<lambda>x. Inr (Some x))" by (simp add: page_fields default_config_def)
  then have accepts: "\<forall>x. \<exists>p. beforeSend (config ?s) x = Inr (Some p)" by simp
  have no_hook: "onErrorCaptured (config ?s) = None" by (simp add: page_fields default_config_def)
  have l: "''error'' \<in> set (listeners ?s)" by (simp add: page_fields)
  note d = destroy_keeps_capturing [OF accepts no_hook, of 9000 ?boom "[]"]
  note d5 = d [THEN conjunct2, THEN conjunct2, THEN conjunct2, THEN conjunct2, THEN conjunct2]
  have r: "recordingEvents (destroy ?s) = []" by (rule d [THEN conjunct1])
  have q: "requests (destroy ?s) = (if batch ?s = [] then requests ?s else requests ?s @ [batch ?s])"
    by (rule d5 [THEN conjunct1])
  have ls: "listeners (destroy ?s) = listeners ?s"
    by (rule d5 [THEN conjunct2, THEN conjunct1])
  have w: "''error'' \<in> set (listeners ?s) \<longrightarrow>
             snd (window_error 9000 ?boom (destroy ?s)) = []
           \<and> map message (batch (fst (window_error 9000 ?boom (destroy ?s)))) = [ev_message ?boom]
           \<and> batchTimer (fst (window_error 9000 ?boom (destroy ?s))) = Some (9000 + 5000)
           \<and> requests (acc_step Expire (fst (window_error 9000 ?boom (destroy ?s))))
               = requests (destroy ?s) @ [batch (fst (window_error 9000 ?boom (destroy ?s)))]"
    by (rule d5 [THEN conjunct2, THEN conjunct2, THEN conjunct2, THEN conjunct2,
          THEN conjunct2, THEN conjunct1])
  note w' = w [THEN mp, OF l]
  have m: "map message (batch (fst (window_error 9000 ?boom (destroy ?s)))) = [''boom'']"
    using w' [THEN conjunct2, THEN conjunct1] by simp
  have t: "batchTimer (fst (window_error 9000 ?boom (destroy ?s))) = Some 14000"
    using w' [THEN conjunct2, THEN conjunct2, THEN conjunct1] by simp
  have q': "requests (destroy ?s) = [[ev ''a'']]" unfolding q by (simp add: page_fields)
  have ls': "listeners (destroy ?s)
      = [''online'', ''beforeunload'', ''error'', ''unhandledrejection'', ''popstate'', ''hashchange'', ''click'']"
    unfolding ls by (simp add: page_fields)
  show ?thesis using b no_hook l r q' ls' m t by (intro conjI)
qed

section \<open>Properties of redaction\<close>










lemma console_log_timer [simp]: "batchTimer (console_log now args s) = batchTimer s"
  by (simp add: console_log_def addBreadcrumb_def Let_def)





end
